theory Spec2Isabelle
  imports Main
begin

section \<open>Exceptions\<close>

text \<open>
  Values that stand where Python has an arbitrary object as a dictionary key or as the
  \<open>name\<close> attribute of a class: \<open>None\<close>, a string, or something hashable that is not a
  string (an integer stands for all of those).
\<close>

datatype pyval = PyNone | PyStr string | PyInt int

text \<open>
  One constructor for each place where the code raises, named after the Python
  exception:
  \<^item> \<open>IndexError\<close>: \<open>pop\<close> and \<open>popleft\<close> of an empty list, with the message;
  \<^item> \<open>ValueError_name_unset\<close>: \<open>`name` attribute must be set on subclass ...\<close>,
    with the \<open>__name__\<close> of the class;
  \<^item> \<open>ValueError_name_invalid\<close>: \<open>`name` attribute of ..., must be a non-empty string\<close>;
  \<^item> \<open>ValueError_duplicate\<close>: \<open>Duplicate name assigned for classes ...\<close>, with the
    \<open>__name__\<close> of the current and of the existing class;
  \<^item> \<open>KeyError\<close>: a dictionary subscripted with a key it does not have;
  \<^item> \<open>TypeError_abstract\<close>: what \<open>ABC\<close> raises when a class that still has an abstract
    method is instantiated;
  \<^item> \<open>Init_raised\<close>: whatever the constructor of a pattern class raises itself.
\<close>

datatype error =
    IndexError string
  | ValueError_name_unset string
  | ValueError_name_invalid string
  | ValueError_duplicate string string
  | KeyError pyval
  | TypeError_abstract string
  | Init_raised string

text \<open>The failure kinds of the specification, as sets of those exceptions.\<close>

fun EmptyContainer :: "error \<Rightarrow> bool" where
  "EmptyContainer (IndexError _) = True"
| "EmptyContainer _ = False"

fun InvalidPatternName :: "error \<Rightarrow> bool" where
  "InvalidPatternName (ValueError_name_unset _) = True"
| "InvalidPatternName (ValueError_name_invalid _) = True"
| "InvalidPatternName _ = False"

fun DuplicatePattern :: "error \<Rightarrow> bool" where
  "DuplicatePattern (ValueError_duplicate _ _) = True"
| "DuplicatePattern _ = False"

fun NotFound :: "error \<Rightarrow> bool" where
  "NotFound (KeyError _) = True"
| "NotFound _ = False"

fun AbstractContractViolation :: "error \<Rightarrow> bool" where
  "AbstractContractViolation (TypeError_abstract _) = True"
| "AbstractContractViolation _ = False"


section \<open>The doubly linked list\<close>

subsection \<open>Nodes and the object store\<close>

text \<open>
  A \<open>Node\<close> object has the slots \<open>value\<close>, \<open>prev\<close> and \<open>next\<close>; the two links are
  references to other nodes or \<open>None\<close>. Nodes are shared and mutated in place, so they
  live in a store: a list of nodes in which a reference is an index. \<open>Node(...)\<close>
  allocates at the end of the store, and nothing is ever freed (an unlinked node stays
  where it is, as an object that somebody may still hold).
\<close>

record 'a node =
  node_value :: 'a
  node_prev :: "nat option"
  node_next :: "nat option"

text \<open>
  A \<open>DoublyLinkedList\<close> has the slots \<open>_head\<close>, \<open>_tail\<close> and \<open>_size\<close>. The record
  carries the store along, so that an operation returns the store it has changed.
\<close>

record 'a dll =
  heap :: "'a node list"
  dll_head :: "nat option"
  dll_tail :: "nat option"
  dll_size :: int

definition set_prev :: "'a node list \<Rightarrow> nat \<Rightarrow> nat option \<Rightarrow> 'a node list" where
  "set_prev h a p = h[a := (h ! a)\<lparr>node_prev := p\<rparr>]"

definition set_next :: "'a node list \<Rightarrow> nat \<Rightarrow> nat option \<Rightarrow> 'a node list" where
  "set_next h a n = h[a := (h ! a)\<lparr>node_next := n\<rparr>]"

text \<open>\<open>DoublyLinkedList()\<close>, created in a store \<open>h\<close>.\<close>

definition DoublyLinkedList :: "'a node list \<Rightarrow> 'a dll" where
  "DoublyLinkedList h = \<lparr>heap = h, dll_head = None, dll_tail = None, dll_size = 0\<rparr>"

definition dll_len :: "'a dll \<Rightarrow> int" where
  "dll_len s = dll_size s"

subsection \<open>Traversal\<close>

text \<open>
  \<open>__iter__\<close> and \<open>__reversed__\<close> are the same loop over a different link:
  \<^verbatim>\<open>while current: yield current.value; current = current.<link>\<close>.
  A node is always true (the class defines neither \<open>__bool__\<close> nor \<open>__len__\<close>), so the
  loop stops at \<open>None\<close> only, and on a cyclic chain it never stops: \<open>traverse\<close> is a
  partial function, \<open>None\<close> when the loop does not end, and otherwise the nodes that
  \<open>current\<close> has been, in order.
\<close>

partial_function (option) traverse ::
  "('a node \<Rightarrow> nat option) \<Rightarrow> 'a node list \<Rightarrow> nat option \<Rightarrow> nat list option" where
  "traverse link h current =
     (case current of
        None \<Rightarrow> Some []
      | Some a \<Rightarrow> Option.bind (traverse link h (link (h ! a))) (\<lambda>as. Some (a # as)))"

definition values_of :: "'a node list \<Rightarrow> nat list \<Rightarrow> 'a list" where
  "values_of h as = map (\<lambda>a. node_value (h ! a)) as"

definition iter_nodes :: "'a dll \<Rightarrow> nat list option" where
  "iter_nodes s = traverse node_next (heap s) (dll_head s)"

definition reversed_nodes :: "'a dll \<Rightarrow> nat list option" where
  "reversed_nodes s = traverse node_prev (heap s) (dll_tail s)"

definition dll_iter :: "'a dll \<Rightarrow> 'a list option" where
  "dll_iter s = map_option (values_of (heap s)) (iter_nodes s)"

definition dll_reversed :: "'a dll \<Rightarrow> 'a list option" where
  "dll_reversed s = map_option (values_of (heap s)) (reversed_nodes s)"

text \<open>A node belongs to the list when the forward traversal from the head meets it.\<close>

definition belongs :: "'a dll \<Rightarrow> nat \<Rightarrow> bool" where
  "belongs s node = (case iter_nodes s of None \<Rightarrow> False | Some as \<Rightarrow> node \<in> set as)"

subsection \<open>The operations\<close>

definition dll_append :: "'a dll \<Rightarrow> 'a \<Rightarrow> 'a dll \<times> nat" where
  "dll_append s v =
     (let node = length (heap s);
          h1 = heap s @ [\<lparr>node_value = v, node_prev = dll_tail s, node_next = None\<rparr>];
          s1 = (case dll_tail s of
                  Some t \<Rightarrow> s\<lparr>heap := set_next h1 t (Some node)\<rparr>
                | None \<Rightarrow> s\<lparr>heap := h1, dll_head := Some node\<rparr>)
      in (s1\<lparr>dll_tail := Some node, dll_size := dll_size s1 + 1\<rparr>, node))"

definition dll_appendleft :: "'a dll \<Rightarrow> 'a \<Rightarrow> 'a dll \<times> nat" where
  "dll_appendleft s v =
     (let node = length (heap s);
          h1 = heap s @ [\<lparr>node_value = v, node_prev = None, node_next = dll_head s\<rparr>];
          s1 = (case dll_head s of
                  Some t \<Rightarrow> s\<lparr>heap := set_prev h1 t (Some node)\<rparr>
                | None \<Rightarrow> s\<lparr>heap := h1, dll_tail := Some node\<rparr>)
      in (s1\<lparr>dll_head := Some node, dll_size := dll_size s1 + 1\<rparr>, node))"

definition insert_after :: "'a dll \<Rightarrow> nat \<Rightarrow> 'a \<Rightarrow> 'a dll \<times> nat" where
  "insert_after s node v =
     (let new_node = length (heap s);
          h1 = heap s @ [\<lparr>node_value = v, node_prev = Some node,
                          node_next = node_next (heap s ! node)\<rparr>];
          s1 = (case node_next (h1 ! node) of
                  Some n \<Rightarrow> s\<lparr>heap := set_prev h1 n (Some new_node)\<rparr>
                | None \<Rightarrow> s\<lparr>heap := h1, dll_tail := Some new_node\<rparr>)
      in (s1\<lparr>heap := set_next (heap s1) node (Some new_node),
              dll_size := dll_size s1 + 1\<rparr>, new_node))"

definition insert_before :: "'a dll \<Rightarrow> nat \<Rightarrow> 'a \<Rightarrow> 'a dll \<times> nat" where
  "insert_before s node v =
     (let new_node = length (heap s);
          h1 = heap s @ [\<lparr>node_value = v, node_prev = node_prev (heap s ! node),
                          node_next = Some node\<rparr>];
          s1 = (case node_prev (h1 ! node) of
                  Some p \<Rightarrow> s\<lparr>heap := set_next h1 p (Some new_node)\<rparr>
                | None \<Rightarrow> s\<lparr>heap := h1, dll_head := Some new_node\<rparr>)
      in (s1\<lparr>heap := set_prev (heap s1) node (Some new_node),
              dll_size := dll_size s1 + 1\<rparr>, new_node))"

definition remove_node :: "'a dll \<Rightarrow> nat \<Rightarrow> 'a dll" where
  "remove_node s node =
     (let s1 = (case node_prev (heap s ! node) of
                  Some p \<Rightarrow> s\<lparr>heap := set_next (heap s) p (node_next (heap s ! node))\<rparr>
                | None \<Rightarrow> s\<lparr>dll_head := node_next (heap s ! node)\<rparr>);
          s2 = (case node_next (heap s1 ! node) of
                  Some n \<Rightarrow> s1\<lparr>heap := set_prev (heap s1) n (node_prev (heap s1 ! node))\<rparr>
                | None \<Rightarrow> s1\<lparr>dll_tail := node_prev (heap s1 ! node)\<rparr>)
      in s2\<lparr>heap := set_next (set_prev (heap s2) node None) node None,
            dll_size := dll_size s2 - 1\<rparr>)"

text \<open>
  \<open>pop\<close> and \<open>popleft\<close> raise before they touch anything. The result is the list after
  the call together with what the call gave: the exception or the value.
\<close>

definition dll_pop :: "'a dll \<Rightarrow> 'a dll \<times> (error + 'a)" where
  "dll_pop s =
     (case dll_tail s of
        None \<Rightarrow> (s, Inl (IndexError ''pop from empty list''))
      | Some t \<Rightarrow> (let v = node_value (heap s ! t) in (remove_node s t, Inr v)))"

definition dll_popleft :: "'a dll \<Rightarrow> 'a dll \<times> (error + 'a)" where
  "dll_popleft s =
     (case dll_head s of
        None \<Rightarrow> (s, Inl (IndexError ''popleft from empty list''))
      | Some t \<Rightarrow> (let v = node_value (heap s ! t) in (remove_node s t, Inr v)))"

definition dll_clear :: "'a dll \<Rightarrow> 'a dll" where
  "dll_clear s = s\<lparr>dll_head := None, dll_tail := None, dll_size := 0\<rparr>"

subsection \<open>Sequences of operations\<close>

datatype 'a dll_op =
    Append 'a
  | AppendLeft 'a
  | Pop
  | PopLeft
  | InsertAfter nat 'a
  | InsertBefore nat 'a
  | RemoveNode nat
  | Clear

text \<open>The list after one operation; a call that raised has left it as it was.\<close>

fun apply_op :: "'a dll \<Rightarrow> 'a dll_op \<Rightarrow> 'a dll" where
  "apply_op s (Append v) = fst (dll_append s v)"
| "apply_op s (AppendLeft v) = fst (dll_appendleft s v)"
| "apply_op s Pop = fst (dll_pop s)"
| "apply_op s PopLeft = fst (dll_popleft s)"
| "apply_op s (InsertAfter n v) = fst (insert_after s n v)"
| "apply_op s (InsertBefore n v) = fst (insert_before s n v)"
| "apply_op s (RemoveNode n) = remove_node s n"
| "apply_op s Clear = dll_clear s"

text \<open>The precondition of the operations that take a node: it belongs to the list.\<close>

fun op_ok :: "'a dll \<Rightarrow> 'a dll_op \<Rightarrow> bool" where
  "op_ok s (InsertAfter n v) = belongs s n"
| "op_ok s (InsertBefore n v) = belongs s n"
| "op_ok s (RemoveNode n) = belongs s n"
| "op_ok s _ = True"

fun run_ops :: "'a dll \<Rightarrow> 'a dll_op list \<Rightarrow> 'a dll" where
  "run_ops s [] = s"
| "run_ops s (x # xs) = run_ops (apply_op s x) xs"

fun ops_ok :: "'a dll \<Rightarrow> 'a dll_op list \<Rightarrow> bool" where
  "ops_ok s [] = True"
| "ops_ok s (x # xs) = (op_ok s x \<and> ops_ok (apply_op s x) xs)"

subsection \<open>The structure of a well-linked list\<close>

text \<open>
  \<open>chain link h x as y\<close>: starting at the reference \<open>x\<close> and following \<open>link\<close>, one
  meets the nodes \<open>as\<close>, all of them in the store, and then arrives at \<open>y\<close>.
\<close>

fun chain ::
  "('a node \<Rightarrow> nat option) \<Rightarrow> 'a node list \<Rightarrow> nat option \<Rightarrow> nat list \<Rightarrow> nat option \<Rightarrow> bool"
  where
  "chain link h x [] y = (x = y)"
| "chain link h x (a # as) y = (x = Some a \<and> a < length h \<and> chain link h (link (h ! a)) as y)"

text \<open>
  The list \<open>s\<close> is made of the nodes \<open>as\<close>, from head to tail: \<open>next\<close> links them from the
  head to \<open>None\<close>, \<open>prev\<close> links them backwards from the tail to \<open>None\<close>, no node occurs
  twice, and \<open>_size\<close> counts them.
\<close>

definition dll_inv :: "'a dll \<Rightarrow> nat list \<Rightarrow> bool" where
  "dll_inv s as \<longleftrightarrow>
     chain node_next (heap s) (dll_head s) as None \<and>
     chain node_prev (heap s) (dll_tail s) (rev as) None \<and>
     distinct as \<and>
     dll_size s = int (length as)"


section \<open>Pattern classes and the registry\<close>

subsection \<open>Classes and instances\<close>

text \<open>
  What the registry sees of a class:
  \<^item> \<open>dunder_name\<close>: its \<open>__name__\<close>;
  \<^item> \<open>cls_name\<close>: what the attribute lookup \<open>cls.name\<close> gives (\<open>None\<close>, inherited from
    \<open>BasePattern\<close>, when no class on the way sets it);
  \<^item> \<open>implements_on_pivot\<close>: whether \<open>on_pivot\<close>, the only abstract method, is overridden;
  \<^item> \<open>cls_init\<close>: the constructor the class defines, from the keyword arguments to the
    state of the new object or to the exception it raises.
  The constructors of the pattern classes are not part of this code: they are a
  parameter of the model.
\<close>

record ('cfg, 'obj) pattern_class =
  dunder_name :: string
  cls_name :: pyval
  implements_on_pivot :: bool
  cls_init :: "'cfg \<Rightarrow> string + 'obj"

text \<open>An object has an identity, which no other object shares, a class and a state.\<close>

record 'obj pattern_instance =
  inst_id :: nat
  inst_class :: string
  inst_state :: 'obj

fun is_str :: "pyval \<Rightarrow> bool" where
  "is_str (PyStr _) = True"
| "is_str _ = False"

fun truthy :: "pyval \<Rightarrow> bool" where
  "truthy PyNone = False"
| "truthy (PyStr s) = (s \<noteq> [])"
| "truthy (PyInt i) = (i \<noteq> 0)"

text \<open>
  Calling a class. \<open>ABC\<close> refuses to instantiate a class that still has an abstract
  method, before the constructor runs; otherwise the constructor runs, and the new
  object gets the identity \<open>oid\<close>.
\<close>

definition construct ::
  "('cfg, 'obj) pattern_class \<Rightarrow> 'cfg \<Rightarrow> nat \<Rightarrow> error + 'obj pattern_instance" where
  "construct cls kwargs oid =
     (if \<not> implements_on_pivot cls then Inl (TypeError_abstract (dunder_name cls))
      else case cls_init cls kwargs of
             Inl e \<Rightarrow> Inl (Init_raised e)
           | Inr st \<Rightarrow> Inr \<lparr>inst_id = oid, inst_class = dunder_name cls, inst_state = st\<rparr>)"

subsection \<open>The registry\<close>

text \<open>
  \<open>Registry._register\<close> is a reference to a dictionary from names to classes, and
  \<open>all()\<close> hands that reference out, so these dictionaries live in a store, \<open>dicts\<close>,
  from references to dictionaries. \<open>Registry._instances\<close> never leaves the class and
  is kept as the dictionary itself. \<open>next_id\<close> is the identity of the next object.
\<close>

record ('cfg, 'obj) registry =
  dicts :: "nat \<Rightarrow> (pyval \<rightharpoonup> ('cfg, 'obj) pattern_class)"
  priv_register :: nat
  priv_instances :: "pyval \<rightharpoonup> 'obj pattern_instance"
  next_id :: nat

text \<open>The state when the module has been loaded: both dictionaries are empty.\<close>

definition Registry :: "('cfg, 'obj) registry" where
  "Registry = \<lparr>dicts = (\<lambda>_. Map.empty), priv_register = 0,
                priv_instances = Map.empty, next_id = 0\<rparr>"

text \<open>The dictionary that \<open>_register\<close> refers to: the specification's \<open>classMap\<close>.\<close>

definition classMap :: "('cfg, 'obj) registry \<Rightarrow> (pyval \<rightharpoonup> ('cfg, 'obj) pattern_class)" where
  "classMap r = dicts r (priv_register r)"

text \<open>The dictionary operations a holder of a reference has.\<close>

definition dict_setitem ::
  "('cfg, 'obj) registry \<Rightarrow> nat \<Rightarrow> pyval \<Rightarrow> ('cfg, 'obj) pattern_class \<Rightarrow> ('cfg, 'obj) registry"
  where
  "dict_setitem r d k v = r\<lparr>dicts := (dicts r)(d := (dicts r d)(k \<mapsto> v))\<rparr>"

definition dict_delitem ::
  "('cfg, 'obj) registry \<Rightarrow> nat \<Rightarrow> pyval \<Rightarrow> ('cfg, 'obj) registry \<times> (error + unit)" where
  "dict_delitem r d k =
     (case dicts r d k of
        None \<Rightarrow> (r, Inl (KeyError k))
      | Some _ \<Rightarrow> (r\<lparr>dicts := (dicts r)(d := (dicts r d)(k := None))\<rparr>, Inr ()))"

text \<open>
  Every operation returns the registry after the call and what the call gave, an
  exception or a value.
\<close>

definition register ::
  "('cfg, 'obj) registry \<Rightarrow> ('cfg, 'obj) pattern_class \<Rightarrow> ('cfg, 'obj) registry \<times> (error + unit)"
  where
  "register r subcls =
     (let name = cls_name subcls in
      case classMap r name of
        Some existing \<Rightarrow>
          (r, Inl (ValueError_duplicate (dunder_name subcls) (dunder_name existing)))
      | None \<Rightarrow> (dict_setitem r (priv_register r) (cls_name subcls) subcls, Inr ()))"

text \<open>
  \<open>BasePattern.__init_subclass__\<close>, for a class statement without keyword arguments
  (for which \<open>super().__init_subclass__(**kwargs)\<close> does nothing).
\<close>

definition init_subclass ::
  "('cfg, 'obj) registry \<Rightarrow> ('cfg, 'obj) pattern_class \<Rightarrow> ('cfg, 'obj) registry \<times> (error + unit)"
  where
  "init_subclass r cls =
     (if cls_name cls = PyNone then (r, Inl (ValueError_name_unset (dunder_name cls)))
      else if \<not> is_str (cls_name cls) \<or> \<not> truthy (cls_name cls)
        then (r, Inl (ValueError_name_invalid (dunder_name cls)))
      else register r cls)"

text \<open>
  The class statement of a subclass of \<open>BasePattern\<close>: creating the class runs
  \<open>__init_subclass__\<close>, and an exception there abandons the statement. \<open>ABCMeta\<close> only
  records which methods are still abstract; it raises nothing for them here.
\<close>

definition declare_class ::
  "('cfg, 'obj) registry \<Rightarrow> ('cfg, 'obj) pattern_class \<Rightarrow> ('cfg, 'obj) registry \<times> (error + unit)"
  where
  "declare_class r cls = init_subclass r cls"

definition get_instance ::
  "('cfg, 'obj) registry \<Rightarrow> pyval \<Rightarrow> ('cfg, 'obj) registry \<times> (error + 'obj pattern_instance)" where
  "get_instance r name =
     (case priv_instances r name of
        None \<Rightarrow> (r, Inl (KeyError name))
      | Some i \<Rightarrow> (r, Inr i))"

text \<open>\<open>all()\<close> returns \<open>cls._register\<close>: the reference, not a copy of the dictionary.\<close>

definition registry_all :: "('cfg, 'obj) registry \<Rightarrow> ('cfg, 'obj) registry \<times> nat" where
  "registry_all r = (r, priv_register r)"

text \<open>
  \<open>create\<close>: in the assignment the right-hand side comes first, the subscript
  \<open>cls._register[name]\<close> and then the call; the entry is stored only when both have
  returned.
\<close>

definition create ::
  "('cfg, 'obj) registry \<Rightarrow> pyval \<Rightarrow> 'cfg \<Rightarrow> ('cfg, 'obj) registry \<times> (error + 'obj pattern_instance)"
  where
  "create r name kwargs =
     (let (r1, raised) =
            (if priv_instances r name = None then
               (case classMap r name of
                  None \<Rightarrow> (r, Some (KeyError name))
                | Some cls \<Rightarrow>
                    (case construct cls kwargs (next_id r) of
                       Inl e \<Rightarrow> (r, Some e)
                     | Inr i \<Rightarrow>
                         (r\<lparr>priv_instances := (priv_instances r)(name \<mapsto> i),
                            next_id := next_id r + 1\<rparr>, None)))
             else (r, None))
      in case raised of
           Some e \<Rightarrow> (r1, Inl e)
         | None \<Rightarrow> get_instance r1 name)"

subsection \<open>Sequences of registry operations\<close>

datatype ('cfg, 'obj) registry_op =
    Declare "('cfg, 'obj) pattern_class"
  | Create pyval 'cfg
  | GetInstance pyval

fun apply_registry_op ::
  "('cfg, 'obj) registry \<Rightarrow> ('cfg, 'obj) registry_op \<Rightarrow> ('cfg, 'obj) registry" where
  "apply_registry_op r (Declare c) = fst (declare_class r c)"
| "apply_registry_op r (Create n k) = fst (create r n k)"
| "apply_registry_op r (GetInstance n) = fst (get_instance r n)"

fun run_registry ::
  "('cfg, 'obj) registry \<Rightarrow> ('cfg, 'obj) registry_op list \<Rightarrow> ('cfg, 'obj) registry" where
  "run_registry r [] = r"
| "run_registry r (x # xs) = run_registry (apply_registry_op r x) xs"

text \<open>The invariant of the specification: every cached instance is of a registered name.\<close>

definition instances_registered :: "('cfg, 'obj) registry \<Rightarrow> bool" where
  "instances_registered r \<longleftrightarrow> dom (priv_instances r) \<subseteq> dom (classMap r)"


section \<open>Example inputs\<close>

definition Foo :: "(int, int) pattern_class" where
  "Foo = \<lparr>dunder_name = ''Foo'', cls_name = PyStr ''foo'', implements_on_pivot = True,
          cls_init = (\<lambda>threshold. Inr threshold)\<rparr>"

definition Foo2 :: "(int, int) pattern_class" where
  "Foo2 = \<lparr>dunder_name = ''Foo2'', cls_name = PyStr ''foo'', implements_on_pivot = True,
          cls_init = (\<lambda>threshold. Inr (threshold + 1))\<rparr>"

definition Bare :: "(int, int) pattern_class" where
  "Bare = \<lparr>dunder_name = ''Bare'', cls_name = PyStr ''bare'', implements_on_pivot = False,
           cls_init = (\<lambda>threshold. Inr threshold)\<rparr>"

definition Unnamed :: "(int, int) pattern_class" where
  "Unnamed = \<lparr>dunder_name = ''Unnamed'', cls_name = PyNone, implements_on_pivot = True,
           cls_init = (\<lambda>threshold. Inr threshold)\<rparr>"

definition EmptyName :: "(int, int) pattern_class" where
  "EmptyName = \<lparr>dunder_name = ''EmptyName'', cls_name = PyStr [], implements_on_pivot = True,
           cls_init = (\<lambda>threshold. Inr threshold)\<rparr>"

definition NumberName :: "(int, int) pattern_class" where
  "NumberName = \<lparr>dunder_name = ''NumberName'', cls_name = PyInt 7, implements_on_pivot = True,
           cls_init = (\<lambda>threshold. Inr threshold)\<rparr>"

definition Picky :: "(int, int) pattern_class" where
  "Picky = \<lparr>dunder_name = ''Picky'', cls_name = PyStr ''picky'', implements_on_pivot = True,
           cls_init = (\<lambda>threshold. if threshold < 0 then Inl ''ValueError'' else Inr threshold)\<rparr>"

definition load_ops :: "(int, int) registry_op list" where
  "load_ops = [Declare Foo, Declare Picky, Declare Bare, Declare Foo2]"

definition later_ops :: "(int, int) registry_op list" where
  "later_ops = [Create (PyStr ''foo'') 3, Declare Unnamed, GetInstance (PyStr ''foo''),
                Create (PyStr ''picky'') 4]"

text \<open>
  The registry after \<open>create("foo", 1)\<close> followed by \<open>del Registry.all()["foo"]\<close>.
\<close>

definition forgotten_foo :: "(int, int) registry" where
  "forgotten_foo =
     (let r1 = fst (create (run_registry Registry load_ops) (PyStr ''foo'') 1)
      in fst (dict_delitem r1 (snd (registry_all r1)) (PyStr ''foo'')))"

definition demo_ops :: "int dll_op list" where
  "demo_ops = [Append 1, Append 2, AppendLeft 0, InsertAfter 0 5, InsertBefore 1 7,
               RemoveNode 0, Pop, PopLeft]"

definition refill_ops :: "int dll_op list" where
  "refill_ops = [Append 1, Pop]"

definition splice_ops :: "int dll_op list" where
  "splice_ops = [Append 1, Append 2, AppendLeft 0]"


section \<open>Properties of the doubly linked list\<close>

subsection \<open>Chains and the store\<close>

lemma traverse_None [simp]: "traverse link h None = Some []"
  by (simp add: traverse.simps)

lemma traverse_Some [simp]:
  "traverse link h (Some a) = Option.bind (traverse link h (link (h ! a))) (\<lambda>as. Some (a # as))"
  by (subst traverse.simps) simp

lemma chain_from_None [simp]: "chain link h None as y \<longleftrightarrow> as = [] \<and> y = None"
  by (cases as) auto

lemma chain_append [simp]:
  "chain link h x (as @ bs) z \<longleftrightarrow> (\<exists>y. chain link h x as y \<and> chain link h y bs z)"
  by (induction as arbitrary: x) auto

lemma chain_bound: "chain link h x as y \<Longrightarrow> a \<in> set as \<Longrightarrow> a < length h"
  by (induction as arbitrary: x) auto

lemma chain_frame:
  "chain link h x as y \<Longrightarrow> length h \<le> length h' \<Longrightarrow>
   (\<forall>a\<in>set as. a < length h \<longrightarrow> link (h' ! a) = link (h ! a)) \<Longrightarrow> chain link h' x as y"
  by (induction as arbitrary: x) auto

lemma chain_traverse: "chain link h x as None \<Longrightarrow> traverse link h x = Some as"
  by (induction as arbitrary: x) auto

lemma length_set_next [simp]: "length (set_next h a n) = length h"
  by (simp add: set_next_def)

lemma length_set_prev [simp]: "length (set_prev h a n) = length h"
  by (simp add: set_prev_def)

lemma next_set_next [simp]:
  "node_next (set_next h a n ! b) = (if b = a \<and> a < length h then n else node_next (h ! b))"
  by (cases "a < length h") (auto simp: set_next_def nth_list_update list_update_beyond)

lemma prev_set_next [simp]: "node_prev (set_next h a n ! b) = node_prev (h ! b)"
  by (cases "a < length h") (auto simp: set_next_def nth_list_update list_update_beyond)

lemma value_set_next [simp]: "node_value (set_next h a n ! b) = node_value (h ! b)"
  by (cases "a < length h") (auto simp: set_next_def nth_list_update list_update_beyond)

lemma prev_set_prev [simp]:
  "node_prev (set_prev h a n ! b) = (if b = a \<and> a < length h then n else node_prev (h ! b))"
  by (cases "a < length h") (auto simp: set_prev_def nth_list_update list_update_beyond)

lemma next_set_prev [simp]: "node_next (set_prev h a n ! b) = node_next (h ! b)"
  by (cases "a < length h") (auto simp: set_prev_def nth_list_update list_update_beyond)

lemma value_set_prev [simp]: "node_value (set_prev h a n ! b) = node_value (h ! b)"
  by (cases "a < length h") (auto simp: set_prev_def nth_list_update list_update_beyond)


lemma chain_prev_set_next [simp]:
  "chain node_prev (set_next h a n) x as y = chain node_prev h x as y"
  by (induction as arbitrary: x) auto

lemma chain_next_set_prev [simp]:
  "chain node_next (set_prev h a n) x as y = chain node_next h x as y"
  by (induction as arbitrary: x) auto

lemma chain_next_set_next [simp]:
  "a \<notin> set as \<Longrightarrow> chain node_next (set_next h a n) x as y = chain node_next h x as y"
  by (induction as arbitrary: x) auto

lemma chain_prev_set_prev [simp]:
  "a \<notin> set as \<Longrightarrow> chain node_prev (set_prev h a n) x as y = chain node_prev h x as y"
  by (induction as arbitrary: x) auto

lemma chain_alloc [simp]:
  "length h \<notin> set as \<Longrightarrow> chain link (h @ [nd]) x as y = chain link h x as y"
  by (induction as arbitrary: x) (auto simp: nth_append)

subsection \<open>Every operation keeps the list well linked\<close>

lemma dll_inv_fresh: "dll_inv s as \<Longrightarrow> length (heap s) \<notin> set as"
  by (auto simp: dll_inv_def dest: chain_bound)

lemma dll_inv_new: "dll_inv (DoublyLinkedList h) []"
  by (simp add: dll_inv_def DoublyLinkedList_def)

lemma dll_inv_head: "dll_inv s as \<Longrightarrow> dll_head s = (case as of [] \<Rightarrow> None | a # _ \<Rightarrow> Some a)"
  by (cases as) (auto simp: dll_inv_def)

lemma dll_inv_tail:
  "dll_inv s as \<Longrightarrow> dll_tail s = (if as = [] then None else Some (last as))"
  by (cases as rule: rev_cases) (auto simp: dll_inv_def)

lemma dll_inv_append:
  assumes "dll_inv s as"
  shows "dll_inv (fst (dll_append s v)) (as @ [length (heap s)])"
proof (cases as rule: rev_cases)
  case Nil
  with assms show ?thesis
    by (auto simp: dll_inv_def dll_append_def Let_def)
next
  case (snoc bs t)
  with assms dll_inv_fresh[OF assms] show ?thesis
    by (auto simp: dll_inv_def dll_append_def Let_def nth_append)
qed

lemma dll_inv_appendleft:
  assumes "dll_inv s as"
  shows "dll_inv (fst (dll_appendleft s v)) (length (heap s) # as)"
proof (cases as)
  case Nil
  with assms show ?thesis
    by (auto simp: dll_inv_def dll_appendleft_def Let_def)
next
  case (Cons t bs)
  with assms dll_inv_fresh[OF assms] show ?thesis
    by (auto simp: dll_inv_def dll_appendleft_def Let_def nth_append)
qed

lemma dll_inv_remove_node:
  assumes "dll_inv s (xs @ n # ys)"
  shows "dll_inv (remove_node s n) (xs @ ys)"
proof -
  show ?thesis
  proof (cases xs rule: rev_cases)
    case Nil
    note xs = this
    show ?thesis
    proof (cases ys)
      case Nil
      with xs assms show ?thesis
        by (auto simp: dll_inv_def remove_node_def Let_def)
    next
      case (Cons q qs)
      with xs assms show ?thesis
        by (auto simp: dll_inv_def remove_node_def Let_def)
    qed
  next
    case (snoc ps p)
    note xs = this
    show ?thesis
    proof (cases ys)
      case Nil
      with xs assms show ?thesis
        by (auto simp: dll_inv_def remove_node_def Let_def)
    next
      case (Cons q qs)
      with xs assms show ?thesis
        by (auto simp: dll_inv_def remove_node_def Let_def)
    qed
  qed
qed


lemma dll_inv_insert_after:
  assumes "dll_inv s (xs @ n # ys)"
  shows "dll_inv (fst (insert_after s n v)) (xs @ n # length (heap s) # ys)"
proof (cases ys)
  case Nil
  with assms dll_inv_fresh[OF assms] show ?thesis
    by (auto simp: dll_inv_def insert_after_def Let_def nth_append)
next
  case (Cons q qs)
  with assms dll_inv_fresh[OF assms] show ?thesis
    by (auto simp: dll_inv_def insert_after_def Let_def nth_append)
qed

lemma dll_inv_insert_before:
  assumes "dll_inv s (xs @ n # ys)"
  shows "dll_inv (fst (insert_before s n v)) (xs @ length (heap s) # n # ys)"
proof (cases xs rule: rev_cases)
  case Nil
  with assms dll_inv_fresh[OF assms] show ?thesis
    by (auto simp: dll_inv_def insert_before_def Let_def nth_append)
next
  case (snoc ps p)
  with assms dll_inv_fresh[OF assms] show ?thesis
    by (auto simp: dll_inv_def insert_before_def Let_def nth_append)
qed

lemma dll_inv_clear: "dll_inv (dll_clear s) []"
  by (simp add: dll_inv_def dll_clear_def)

lemma dll_inv_pop_empty: "dll_inv s [] \<Longrightarrow> dll_pop s = (s, Inl (IndexError ''pop from empty list''))"
  by (simp add: dll_inv_def dll_pop_def)

lemma dll_inv_popleft_empty:
  "dll_inv s [] \<Longrightarrow> dll_popleft s = (s, Inl (IndexError ''popleft from empty list''))"
  by (simp add: dll_inv_def dll_popleft_def)

lemma dll_pop_snoc:
  "dll_inv s (as @ [t]) \<Longrightarrow> dll_pop s = (remove_node s t, Inr (node_value (heap s ! t)))"
  by (simp add: dll_inv_def dll_pop_def)

lemma dll_popleft_Cons:
  "dll_inv s (t # as) \<Longrightarrow> dll_popleft s = (remove_node s t, Inr (node_value (heap s ! t)))"
  by (simp add: dll_inv_def dll_popleft_def)

lemma dll_inv_pop: "dll_inv s as \<Longrightarrow> dll_inv (fst (dll_pop s)) (butlast as)"
proof (cases as rule: rev_cases)
  case Nil
  assume "dll_inv s as"
  with Nil show ?thesis by (simp add: dll_inv_pop_empty)
next
  case (snoc bs t)
  assume "dll_inv s as"
  with snoc dll_inv_remove_node[of s bs t "[]"] show ?thesis by (simp add: dll_pop_snoc)
qed

lemma dll_inv_popleft: "dll_inv s as \<Longrightarrow> dll_inv (fst (dll_popleft s)) (tl as)"
proof (cases as)
  case Nil
  assume "dll_inv s as"
  with Nil show ?thesis by (simp add: dll_inv_popleft_empty)
next
  case (Cons t bs)
  assume "dll_inv s as"
  with Cons dll_inv_remove_node[of s "[]" t bs] show ?thesis by (simp add: dll_popleft_Cons)
qed

lemma dll_inv_iter_nodes: "dll_inv s as \<Longrightarrow> iter_nodes s = Some as"
  by (simp add: dll_inv_def iter_nodes_def chain_traverse)

lemma dll_inv_reversed_nodes: "dll_inv s as \<Longrightarrow> reversed_nodes s = Some (rev as)"
  by (simp add: dll_inv_def reversed_nodes_def chain_traverse)

lemma dll_inv_belongs: "dll_inv s as \<Longrightarrow> belongs s n \<longleftrightarrow> n \<in> set as"
  by (simp add: belongs_def dll_inv_iter_nodes)

lemma dll_inv_step:
  assumes "dll_inv s as" and "op_ok s x"
  shows "\<exists>as'. dll_inv (apply_op s x) as'"
proof (cases x)
  case (Append v)
  with dll_inv_append[OF assms(1)] show ?thesis by auto
next
  case (AppendLeft v)
  with dll_inv_appendleft[OF assms(1)] show ?thesis by auto
next
  case Pop
  with dll_inv_pop[OF assms(1)] show ?thesis by auto
next
  case PopLeft
  with dll_inv_popleft[OF assms(1)] show ?thesis by auto
next
  case (InsertAfter n v)
  with assms have "n \<in> set as" by (simp add: dll_inv_belongs)
  then obtain xs ys where "as = xs @ n # ys" by (auto simp: in_set_conv_decomp)
  with assms(1) InsertAfter dll_inv_insert_after[of s xs n ys v] show ?thesis by auto
next
  case (InsertBefore n v)
  with assms have "n \<in> set as" by (simp add: dll_inv_belongs)
  then obtain xs ys where "as = xs @ n # ys" by (auto simp: in_set_conv_decomp)
  with assms(1) InsertBefore dll_inv_insert_before[of s xs n ys v] show ?thesis by auto
next
  case (RemoveNode n)
  with assms have "n \<in> set as" by (simp add: dll_inv_belongs)
  then obtain xs ys where "as = xs @ n # ys" by (auto simp: in_set_conv_decomp)
  with assms(1) RemoveNode dll_inv_remove_node[of s xs n ys] show ?thesis by auto
next
  case Clear
  with dll_inv_clear[of s] show ?thesis by auto
qed

lemma dll_inv_run:
  "dll_inv s as \<Longrightarrow> ops_ok s ops \<Longrightarrow> \<exists>as'. dll_inv (run_ops s ops) as'"
proof (induction ops arbitrary: s as)
  case Nil
  then show ?case by auto
next
  case (Cons x xs)
  from Cons.prems obtain bs where "dll_inv (apply_op s x) bs"
    using dll_inv_step[of s as x] by auto
  with Cons.IH[of "apply_op s x" bs] Cons.prems show ?case by simp
qed

lemma reachable_inv:
  "ops_ok (DoublyLinkedList h) ops \<Longrightarrow> \<exists>as. dll_inv (run_ops (DoublyLinkedList h) ops) as"
  using dll_inv_run[OF dll_inv_new] by blast

subsection \<open>What the traversals see\<close>

lemma values_of_append [simp]: "values_of h (as @ bs) = values_of h as @ values_of h bs"
  by (simp add: values_of_def)

lemma values_of_Nil [simp]: "values_of h [] = []"
  by (simp add: values_of_def)

lemma values_of_Cons [simp]: "values_of h (a # as) = node_value (h ! a) # values_of h as"
  by (simp add: values_of_def)

lemma length_values_of [simp]: "length (values_of h as) = length as"
  by (simp add: values_of_def)

lemma values_of_rev: "values_of h (rev as) = rev (values_of h as)"
  by (simp add: values_of_def rev_map)

lemma values_of_set_next [simp]: "values_of (set_next h a n) as = values_of h as"
  by (simp add: values_of_def)

lemma values_of_set_prev [simp]: "values_of (set_prev h a n) as = values_of h as"
  by (simp add: values_of_def)

lemma values_of_alloc [simp]:
  "\<forall>a\<in>set as. a < length h \<Longrightarrow> values_of (h @ [nd]) as = values_of h as"
  by (simp add: values_of_def nth_append)

lemma dll_inv_bound: "dll_inv s as \<Longrightarrow> \<forall>a\<in>set as. a < length (heap s)"
  by (auto simp: dll_inv_def dest: chain_bound)

lemma dll_inv_size: "dll_inv s as \<Longrightarrow> dll_size s = int (length as)"
  by (simp add: dll_inv_def)

lemma dll_inv_iter: "dll_inv s as \<Longrightarrow> dll_iter s = Some (values_of (heap s) as)"
  by (simp add: dll_iter_def dll_inv_iter_nodes)

lemma dll_inv_reversed: "dll_inv s as \<Longrightarrow> dll_reversed s = Some (rev (values_of (heap s) as))"
  by (simp add: dll_reversed_def dll_inv_reversed_nodes values_of_rev)

lemma dll_inv_unique: "dll_inv s as \<Longrightarrow> dll_inv s bs \<Longrightarrow> as = bs"
  using dll_inv_iter_nodes[of s as] dll_inv_iter_nodes[of s bs] by simp

lemma values_remove_node [simp]:
  "values_of (heap (remove_node s n)) as = values_of (heap s) as"
  by (simp add: remove_node_def Let_def split: option.splits)

lemma values_append:
  "\<forall>a\<in>set as. a < length (heap s) \<Longrightarrow>
   values_of (heap (fst (dll_append s v))) (as @ [length (heap s)]) = values_of (heap s) as @ [v]"
  by (simp add: dll_append_def Let_def split: option.splits)

lemma values_appendleft:
  "\<forall>a\<in>set as. a < length (heap s) \<Longrightarrow>
   values_of (heap (fst (dll_appendleft s v))) (length (heap s) # as) = v # values_of (heap s) as"
  by (simp add: dll_appendleft_def Let_def split: option.splits)

lemma values_insert_after:
  "\<forall>a\<in>set as. a < length (heap s) \<Longrightarrow>
   values_of (heap (fst (insert_after s n v))) as = values_of (heap s) as"
  by (simp add: insert_after_def Let_def split: option.splits)

lemma snd_append [simp]: "snd (dll_append s v) = length (heap s)"
  by (simp add: dll_append_def Let_def)

lemma snd_appendleft [simp]: "snd (dll_appendleft s v) = length (heap s)"
  by (simp add: dll_appendleft_def Let_def)

lemma snd_insert_after [simp]: "snd (insert_after s n v) = length (heap s)"
  by (simp add: insert_after_def Let_def)

lemma dll_inv_links:
  assumes "dll_inv s as" and "a \<in> set as"
  shows "(\<forall>p. node_prev (heap s ! a) = Some p \<longrightarrow> p \<in> set as \<and> node_next (heap s ! p) = Some a) \<and>
         (\<forall>n. node_next (heap s ! a) = Some n \<longrightarrow> n \<in> set as \<and> node_prev (heap s ! n) = Some a)"
proof -
  from assms(2) obtain xs ys where as: "as = xs @ a # ys" by (auto simp: in_set_conv_decomp)
  have "\<forall>p. node_prev (heap s ! a) = Some p \<longrightarrow> p \<in> set as \<and> node_next (heap s ! p) = Some a"
    using assms(1) as by (cases xs rule: rev_cases) (auto simp: dll_inv_def)
  moreover
  have "\<forall>n. node_next (heap s ! a) = Some n \<longrightarrow> n \<in> set as \<and> node_prev (heap s ! n) = Some a"
    using assms(1) as by (cases ys) (auto simp: dll_inv_def)
  ultimately show ?thesis by blast
qed

lemmas dll_eval = DoublyLinkedList_def belongs_def iter_nodes_def reversed_nodes_def
  dll_iter_def dll_reversed_def dll_len_def dll_append_def dll_appendleft_def insert_after_def
  insert_before_def remove_node_def dll_pop_def dll_popleft_def dll_clear_def set_next_def
  set_prev_def Let_def


subsection \<open>The claims about the list\<close>

text \<open>
  Claim C1. After any sequence of \<open>append\<close>, \<open>appendleft\<close>, \<open>pop\<close>, \<open>popleft\<close>,
  \<open>insert_after\<close>, \<open>insert_before\<close>, \<open>remove_node\<close> (and \<open>clear\<close>) on a new list, each
  insertion and removal at a node that then belongs to the list: \<open>_size\<close> is 0 exactly
  when \<open>_head\<close> is \<open>None\<close>, exactly when \<open>_tail\<close> is \<open>None\<close>; the forward traversal ends, it
  visits \<open>_size\<close> nodes, none twice, the first is the head and the last is the tail; the
  backward traversal ends and visits the same nodes in the reverse order; the values of
  \<open>__reversed__\<close> are those of \<open>__iter__\<close> reversed; \<open>__len__\<close> is their number; and every
  node visited is linked back by its neighbours.
\<close>

theorem dll_structural_invariants:
  assumes "ops_ok (DoublyLinkedList h) ops" and "s = run_ops (DoublyLinkedList h) ops"
  shows "(dll_size s = 0 \<longleftrightarrow> dll_head s = None) \<and> (dll_head s = None \<longleftrightarrow> dll_tail s = None) \<and>
    (\<exists>as vs. iter_nodes s = Some as \<and> reversed_nodes s = Some (rev as) \<and>
       int (length as) = dll_size s \<and> distinct as \<and>
       dll_head s = (if as = [] then None else Some (hd as)) \<and>
       dll_tail s = (if as = [] then None else Some (last as)) \<and>
       dll_iter s = Some vs \<and> dll_reversed s = Some (rev vs) \<and>
       dll_len s = int (length vs) \<and>
       (\<forall>a\<in>set as. a < length (heap s) \<and>
          (\<forall>p. node_prev (heap s ! a) = Some p \<longrightarrow> node_next (heap s ! p) = Some a) \<and>
          (\<forall>n. node_next (heap s ! a) = Some n \<longrightarrow> node_prev (heap s ! n) = Some a)))"
proof -
  from assms obtain as where inv: "dll_inv s as"
    using reachable_inv[of h ops] by auto
  have hd: "dll_head s = (if as = [] then None else Some (hd as))"
    using dll_inv_head[OF inv] by (cases as) auto
  have tl: "dll_tail s = (if as = [] then None else Some (last as))"
    by (rule dll_inv_tail[OF inv])
  have sz: "dll_size s = int (length as)" by (rule dll_inv_size[OF inv])
  have 1: "dll_size s = 0 \<longleftrightarrow> dll_head s = None" using hd sz by auto
  have 2: "dll_head s = None \<longleftrightarrow> dll_tail s = None" using hd tl by auto
  have 3: "\<exists>as vs. iter_nodes s = Some as \<and> reversed_nodes s = Some (rev as) \<and>
       int (length as) = dll_size s \<and> distinct as \<and>
       dll_head s = (if as = [] then None else Some (hd as)) \<and>
       dll_tail s = (if as = [] then None else Some (last as)) \<and>
       dll_iter s = Some vs \<and> dll_reversed s = Some (rev vs) \<and>
       dll_len s = int (length vs) \<and>
       (\<forall>a\<in>set as. a < length (heap s) \<and>
          (\<forall>p. node_prev (heap s ! a) = Some p \<longrightarrow> node_next (heap s ! p) = Some a) \<and>
          (\<forall>n. node_next (heap s ! a) = Some n \<longrightarrow> node_prev (heap s ! n) = Some a))"
  proof (intro exI[of _ as] exI[of _ "values_of (heap s) as"] conjI ballI)
    show "iter_nodes s = Some as" by (rule dll_inv_iter_nodes[OF inv])
    show "reversed_nodes s = Some (rev as)" by (rule dll_inv_reversed_nodes[OF inv])
    show "int (length as) = dll_size s" using sz by simp
    show "distinct as" using inv by (simp add: dll_inv_def)
    show "dll_head s = (if as = [] then None else Some (hd as))" by (rule hd)
    show "dll_tail s = (if as = [] then None else Some (last as))" by (rule tl)
    show "dll_iter s = Some (values_of (heap s) as)" by (rule dll_inv_iter[OF inv])
    show "dll_reversed s = Some (rev (values_of (heap s) as))" by (rule dll_inv_reversed[OF inv])
    show "dll_len s = int (length (values_of (heap s) as))" using sz by (simp add: dll_len_def)
  next
    fix a assume a: "a \<in> set as"
    show "a < length (heap s)" using dll_inv_bound[OF inv] a by simp
    show "\<forall>p. node_prev (heap s ! a) = Some p \<longrightarrow> node_next (heap s ! p) = Some a"
      using dll_inv_links[OF inv a] by simp
    show "\<forall>n. node_next (heap s ! a) = Some n \<longrightarrow> node_prev (heap s ! n) = Some a"
      using dll_inv_links[OF inv a] by simp
  qed
  from 1 2 3 show ?thesis by (intro conjI)
qed

lemma demo_ops_ok: "ops_ok (DoublyLinkedList []) demo_ops"
  by (simp add: demo_ops_def dll_eval)

lemma demo_ops_run:
  "run_ops (DoublyLinkedList []) demo_ops =
     \<lparr>heap = [\<lparr>node_value = 1, node_prev = None, node_next = None\<rparr>,
              \<lparr>node_value = 2, node_prev = None, node_next = None\<rparr>,
              \<lparr>node_value = 0, node_prev = None, node_next = None\<rparr>,
              \<lparr>node_value = 5, node_prev = None, node_next = Some 4\<rparr>,
              \<lparr>node_value = 7, node_prev = Some 3, node_next = None\<rparr>],
       dll_head = Some 3, dll_tail = Some 4, dll_size = 2\<rparr>"
  by (simp add: demo_ops_def dll_eval)

theorem dll_structural_invariants_witness:
  "ops_ok (DoublyLinkedList []) demo_ops \<and>
   dll_iter (run_ops (DoublyLinkedList []) demo_ops) = Some [5, 7] \<and>
   dll_reversed (run_ops (DoublyLinkedList []) demo_ops) = Some [7, 5] \<and>
   dll_len (run_ops (DoublyLinkedList []) demo_ops) = 2 \<and>
   (\<exists>as. iter_nodes (run_ops (DoublyLinkedList []) demo_ops) = Some as \<and>
         reversed_nodes (run_ops (DoublyLinkedList []) demo_ops) = Some (rev as) \<and>
         int (length as) = dll_size (run_ops (DoublyLinkedList []) demo_ops))"
proof -
  have "dll_iter (run_ops (DoublyLinkedList []) demo_ops) = Some [5, 7]"
    unfolding demo_ops_run by (simp add: dll_eval values_of_def)
  moreover have "dll_reversed (run_ops (DoublyLinkedList []) demo_ops) = Some [7, 5]"
    unfolding demo_ops_run by (simp add: dll_eval values_of_def)
  moreover have "dll_len (run_ops (DoublyLinkedList []) demo_ops) = 2"
    unfolding demo_ops_run by (simp add: dll_eval)
  moreover have "\<exists>as. iter_nodes (run_ops (DoublyLinkedList []) demo_ops) = Some as \<and>
         reversed_nodes (run_ops (DoublyLinkedList []) demo_ops) = Some (rev as) \<and>
         int (length as) = dll_size (run_ops (DoublyLinkedList []) demo_ops)"
    using dll_structural_invariants[OF demo_ops_ok refl] by blast
  ultimately show ?thesis using demo_ops_ok by simp
qed


lemma new_node_append:
  "node_value (heap (fst (dll_append s v)) ! length (heap s)) = v \<and>
   node_prev (heap (fst (dll_append s v)) ! length (heap s)) = dll_tail s"
  by (simp add: dll_append_def Let_def split: option.splits)

lemma new_node_appendleft:
  "node_value (heap (fst (dll_appendleft s v)) ! length (heap s)) = v \<and>
   node_next (heap (fst (dll_appendleft s v)) ! length (heap s)) = dll_head s"
  by (simp add: dll_appendleft_def Let_def split: option.splits)

lemma dll_append_spec:
  assumes "dll_inv s as"
  shows "dll_iter (fst (dll_append s v)) = Some (values_of (heap s) as @ [v]) \<and>
         dll_tail (fst (dll_append s v)) = Some (snd (dll_append s v))"
proof -
  let ?s' = "fst (dll_append s v)"
  have inv': "dll_inv ?s' (as @ [length (heap s)])" by (rule dll_inv_append[OF assms])
  have "dll_iter ?s' = Some (values_of (heap ?s') (as @ [length (heap s)]))"
    by (rule dll_inv_iter[OF inv'])
  moreover have "values_of (heap ?s') (as @ [length (heap s)]) = values_of (heap s) as @ [v]"
    by (rule values_append[OF dll_inv_bound[OF assms]])
  moreover have "dll_tail ?s' = Some (length (heap s))"
    using dll_inv_tail[OF inv'] by simp
  ultimately show ?thesis by simp
qed

lemma dll_appendleft_spec:
  assumes "dll_inv s as"
  shows "dll_iter (fst (dll_appendleft s v)) = Some (v # values_of (heap s) as) \<and>
         dll_head (fst (dll_appendleft s v)) = Some (snd (dll_appendleft s v))"
proof -
  let ?s' = "fst (dll_appendleft s v)"
  have inv': "dll_inv ?s' (length (heap s) # as)" by (rule dll_inv_appendleft[OF assms])
  have "dll_iter ?s' = Some (values_of (heap ?s') (length (heap s) # as))"
    by (rule dll_inv_iter[OF inv'])
  moreover have "values_of (heap ?s') (length (heap s) # as) = v # values_of (heap s) as"
    by (rule values_appendleft[OF dll_inv_bound[OF assms]])
  moreover have "dll_head ?s' = Some (length (heap s))"
    using dll_inv_head[OF inv'] by simp
  ultimately show ?thesis by simp
qed

lemma dll_pop_spec:
  assumes "dll_inv s as" and "as \<noteq> []"
  shows "dll_tail s = Some (last as) \<and>
         dll_pop s = (remove_node s (last as), Inr (last (values_of (heap s) as))) \<and>
         last (values_of (heap s) as) = node_value (heap s ! last as) \<and>
         dll_iter (remove_node s (last as)) = Some (butlast (values_of (heap s) as))"
proof -
  from assms(2) obtain bs t where as: "as = bs @ [t]" by (cases as rule: rev_cases) auto
  have inv: "dll_inv s (bs @ [t])" using assms(1) as by simp
  have pop: "dll_pop s = (remove_node s t, Inr (node_value (heap s ! t)))"
    by (rule dll_pop_snoc[OF inv])
  have "dll_inv (remove_node s t) (bs @ [])" by (rule dll_inv_remove_node[OF inv])
  then have "dll_iter (remove_node s t) = Some (values_of (heap s) bs)"
    using dll_inv_iter[of "remove_node s t" bs] by simp
  with pop as dll_inv_tail[OF inv] show ?thesis by simp
qed

lemma dll_popleft_spec:
  assumes "dll_inv s as" and "as \<noteq> []"
  shows "dll_head s = Some (hd as) \<and>
         dll_popleft s = (remove_node s (hd as), Inr (hd (values_of (heap s) as))) \<and>
         hd (values_of (heap s) as) = node_value (heap s ! hd as) \<and>
         dll_iter (remove_node s (hd as)) = Some (tl (values_of (heap s) as))"
proof -
  from assms(2) obtain t bs where as: "as = t # bs" by (cases as) auto
  have inv: "dll_inv s (t # bs)" using assms(1) as by simp
  have pop: "dll_popleft s = (remove_node s t, Inr (node_value (heap s ! t)))"
    by (rule dll_popleft_Cons[OF inv])
  have "dll_inv (remove_node s t) ([] @ bs)" using dll_inv_remove_node[of s "[]" t bs] inv by simp
  then have "dll_iter (remove_node s t) = Some (values_of (heap s) bs)"
    using dll_inv_iter[of "remove_node s t" bs] by simp
  with pop as dll_inv_head[OF inv] show ?thesis by simp
qed

lemma dll_example:
  "(let s0 = DoublyLinkedList ([] :: int node list);
        s1 = fst (dll_append s0 1);
        s2 = fst (dll_append s1 2);
        s3 = fst (dll_appendleft s2 0);
        s4 = fst (dll_pop s3);
        s5 = fst (dll_popleft s4)
    in dll_iter s3 = Some [0, 1, 2] \<and> snd (dll_pop s3) = Inr 2 \<and> dll_iter s4 = Some [0, 1] \<and>
       snd (dll_popleft s4) = Inr 0 \<and> dll_iter s5 = Some [1])"
  by (simp add: DoublyLinkedList_def dll_iter_def iter_nodes_def dll_append_def
      dll_appendleft_def remove_node_def dll_pop_def
      dll_popleft_def set_next_def set_prev_def Let_def)

text \<open>
  Claim C6. On a list reached by the operations, whose forward traversal gives \<open>vs\<close>:
  \<open>append(v)\<close> makes the traversal \<open>vs @ [v]\<close>, the new node is the tail, holds \<open>v\<close> and has
  the old tail as \<open>prev\<close>; \<open>appendleft(v)\<close> makes it \<open>v # vs\<close> and the new node is the
  head; on a non-empty list \<open>pop\<close> returns the value of the tail, the last of \<open>vs\<close>, and
  leaves \<open>butlast vs\<close>, and \<open>popleft\<close> returns the value of the head, the first of
  \<open>vs\<close>, and leaves \<open>tl vs\<close>. And the example: \<open>append(1); append(2); appendleft(0)\<close> gives
  \<open>[0, 1, 2]\<close>, \<open>pop()\<close> returns 2 and leaves \<open>[0, 1]\<close>, \<open>popleft()\<close> returns 0 and leaves
  \<open>[1]\<close>.
\<close>

theorem dll_end_operations:
  assumes "ops_ok (DoublyLinkedList h) ops" and "s = run_ops (DoublyLinkedList h) ops"
  shows "(\<exists>vs. dll_iter s = Some vs \<and>
      dll_iter (fst (dll_append s v)) = Some (vs @ [v]) \<and>
      dll_tail (fst (dll_append s v)) = Some (snd (dll_append s v)) \<and>
      node_value (heap (fst (dll_append s v)) ! snd (dll_append s v)) = v \<and>
      node_prev (heap (fst (dll_append s v)) ! snd (dll_append s v)) = dll_tail s \<and>
      dll_iter (fst (dll_appendleft s v)) = Some (v # vs) \<and>
      dll_head (fst (dll_appendleft s v)) = Some (snd (dll_appendleft s v)) \<and>
      node_value (heap (fst (dll_appendleft s v)) ! snd (dll_appendleft s v)) = v \<and>
      node_next (heap (fst (dll_appendleft s v)) ! snd (dll_appendleft s v)) = dll_head s \<and>
      (vs \<noteq> [] \<longrightarrow>
         (\<exists>t. dll_tail s = Some t \<and> last vs = node_value (heap s ! t)) \<and>
         snd (dll_pop s) = Inr (last vs) \<and>
         dll_iter (fst (dll_pop s)) = Some (butlast vs) \<and>
         (\<exists>t. dll_head s = Some t \<and> hd vs = node_value (heap s ! t)) \<and>
         snd (dll_popleft s) = Inr (hd vs) \<and>
         dll_iter (fst (dll_popleft s)) = Some (tl vs))) \<and>
    (let s0 = DoublyLinkedList ([] :: int node list);
         s1 = fst (dll_append s0 1);
         s2 = fst (dll_append s1 2);
         s3 = fst (dll_appendleft s2 0);
         s4 = fst (dll_pop s3);
         s5 = fst (dll_popleft s4)
     in dll_iter s3 = Some [0, 1, 2] \<and> snd (dll_pop s3) = Inr 2 \<and> dll_iter s4 = Some [0, 1] \<and>
        snd (dll_popleft s4) = Inr 0 \<and> dll_iter s5 = Some [1])"
proof -
  from assms obtain as where inv: "dll_inv s as"
    using reachable_inv[of h ops] by auto
  let ?vs = "values_of (heap s) as"
  have ne: "?vs \<noteq> [] \<Longrightarrow> as \<noteq> []" by auto
  have "dll_iter s = Some ?vs \<and>
      dll_iter (fst (dll_append s v)) = Some (?vs @ [v]) \<and>
      dll_tail (fst (dll_append s v)) = Some (snd (dll_append s v)) \<and>
      node_value (heap (fst (dll_append s v)) ! snd (dll_append s v)) = v \<and>
      node_prev (heap (fst (dll_append s v)) ! snd (dll_append s v)) = dll_tail s \<and>
      dll_iter (fst (dll_appendleft s v)) = Some (v # ?vs) \<and>
      dll_head (fst (dll_appendleft s v)) = Some (snd (dll_appendleft s v)) \<and>
      node_value (heap (fst (dll_appendleft s v)) ! snd (dll_appendleft s v)) = v \<and>
      node_next (heap (fst (dll_appendleft s v)) ! snd (dll_appendleft s v)) = dll_head s \<and>
      (?vs \<noteq> [] \<longrightarrow>
         (\<exists>t. dll_tail s = Some t \<and> last ?vs = node_value (heap s ! t)) \<and>
         snd (dll_pop s) = Inr (last ?vs) \<and>
         dll_iter (fst (dll_pop s)) = Some (butlast ?vs) \<and>
         (\<exists>t. dll_head s = Some t \<and> hd ?vs = node_value (heap s ! t)) \<and>
         snd (dll_popleft s) = Inr (hd ?vs) \<and>
         dll_iter (fst (dll_popleft s)) = Some (tl ?vs))"
  proof (intro conjI impI)
    show "dll_iter s = Some ?vs" by (rule dll_inv_iter[OF inv])
    show "dll_iter (fst (dll_append s v)) = Some (?vs @ [v])"
      using dll_append_spec[OF inv] by simp
    show "dll_tail (fst (dll_append s v)) = Some (snd (dll_append s v))"
      using dll_append_spec[OF inv] by simp
    show "node_value (heap (fst (dll_append s v)) ! snd (dll_append s v)) = v"
      using new_node_append[of s v] by simp
    show "node_prev (heap (fst (dll_append s v)) ! snd (dll_append s v)) = dll_tail s"
      using new_node_append[of s v] by simp
    show "dll_iter (fst (dll_appendleft s v)) = Some (v # ?vs)"
      using dll_appendleft_spec[OF inv] by simp
    show "dll_head (fst (dll_appendleft s v)) = Some (snd (dll_appendleft s v))"
      using dll_appendleft_spec[OF inv] by simp
    show "node_value (heap (fst (dll_appendleft s v)) ! snd (dll_appendleft s v)) = v"
      using new_node_appendleft[of s v] by simp
    show "node_next (heap (fst (dll_appendleft s v)) ! snd (dll_appendleft s v)) = dll_head s"
      using new_node_appendleft[of s v] by simp
  next
    assume "?vs \<noteq> []"
    then have as: "as \<noteq> []" by auto
    show "\<exists>t. dll_tail s = Some t \<and> last ?vs = node_value (heap s ! t)"
      using dll_pop_spec[OF inv as] by blast
    show "snd (dll_pop s) = Inr (last ?vs)"
      using dll_pop_spec[OF inv as] by simp
    show "dll_iter (fst (dll_pop s)) = Some (butlast ?vs)"
      using dll_pop_spec[OF inv as] by simp
    show "\<exists>t. dll_head s = Some t \<and> hd ?vs = node_value (heap s ! t)"
      using dll_popleft_spec[OF inv as] by blast
    show "snd (dll_popleft s) = Inr (hd ?vs)"
      using dll_popleft_spec[OF inv as] by simp
    show "dll_iter (fst (dll_popleft s)) = Some (tl ?vs)"
      using dll_popleft_spec[OF inv as] by simp
  qed
  then have "\<exists>vs. dll_iter s = Some vs \<and>
      dll_iter (fst (dll_append s v)) = Some (vs @ [v]) \<and>
      dll_tail (fst (dll_append s v)) = Some (snd (dll_append s v)) \<and>
      node_value (heap (fst (dll_append s v)) ! snd (dll_append s v)) = v \<and>
      node_prev (heap (fst (dll_append s v)) ! snd (dll_append s v)) = dll_tail s \<and>
      dll_iter (fst (dll_appendleft s v)) = Some (v # vs) \<and>
      dll_head (fst (dll_appendleft s v)) = Some (snd (dll_appendleft s v)) \<and>
      node_value (heap (fst (dll_appendleft s v)) ! snd (dll_appendleft s v)) = v \<and>
      node_next (heap (fst (dll_appendleft s v)) ! snd (dll_appendleft s v)) = dll_head s \<and>
      (vs \<noteq> [] \<longrightarrow>
         (\<exists>t. dll_tail s = Some t \<and> last vs = node_value (heap s ! t)) \<and>
         snd (dll_pop s) = Inr (last vs) \<and>
         dll_iter (fst (dll_pop s)) = Some (butlast vs) \<and>
         (\<exists>t. dll_head s = Some t \<and> hd vs = node_value (heap s ! t)) \<and>
         snd (dll_popleft s) = Inr (hd vs) \<and>
         dll_iter (fst (dll_popleft s)) = Some (tl vs))"
    by (rule exI)
  with dll_example show ?thesis by (rule_tac conjI)
qed

theorem dll_end_operations_witness:
  "ops_ok (DoublyLinkedList []) demo_ops \<and>
   dll_iter (run_ops (DoublyLinkedList []) demo_ops) = Some [5, 7] \<and>
   dll_iter (fst (dll_append (run_ops (DoublyLinkedList []) demo_ops) 9)) = Some [5, 7, 9] \<and>
   dll_iter (fst (dll_appendleft (run_ops (DoublyLinkedList []) demo_ops) 9)) = Some [9, 5, 7] \<and>
   snd (dll_pop (run_ops (DoublyLinkedList []) demo_ops)) = Inr 7 \<and>
   dll_iter (fst (dll_pop (run_ops (DoublyLinkedList []) demo_ops))) = Some [5] \<and>
   snd (dll_popleft (run_ops (DoublyLinkedList []) demo_ops)) = Inr 5 \<and>
   dll_iter (fst (dll_popleft (run_ops (DoublyLinkedList []) demo_ops))) = Some [7]"
proof -
  let ?s = "run_ops (DoublyLinkedList []) demo_ops"
  have it: "dll_iter ?s = Some [5, 7]"
    unfolding demo_ops_run by (simp add: dll_eval values_of_def)
  from dll_end_operations[OF demo_ops_ok refl, of 9] obtain vs where
    vs: "dll_iter ?s = Some vs" and
    1: "dll_iter (fst (dll_append ?s 9)) = Some (vs @ [9])" and
    2: "dll_iter (fst (dll_appendleft ?s 9)) = Some (9 # vs)" and
    3: "vs \<noteq> [] \<longrightarrow>
         (\<exists>t. dll_tail ?s = Some t \<and> last vs = node_value (heap ?s ! t)) \<and>
         snd (dll_pop ?s) = Inr (last vs) \<and>
         dll_iter (fst (dll_pop ?s)) = Some (butlast vs) \<and>
         (\<exists>t. dll_head ?s = Some t \<and> hd vs = node_value (heap ?s ! t)) \<and>
         snd (dll_popleft ?s) = Inr (hd vs) \<and>
         dll_iter (fst (dll_popleft ?s)) = Some (tl vs)"
    by blast
  from vs it have eq: "vs = [5, 7]" by simp
  from 1 2 3 show ?thesis unfolding eq using demo_ops_ok it by simp
qed


text \<open>
  Claim C7. On a list reached by the operations whose \<open>_size\<close> is 0, \<open>pop\<close> and \<open>popleft\<close>
  raise \<open>IndexError\<close> (the specification's \<open>EmptyContainer\<close>) and the list after the call
  is the list before it, store included; after the failed call, \<open>append(v)\<close> followed by
  \<open>pop()\<close> returns \<open>v\<close>.
\<close>

theorem dll_pop_empty:
  assumes "ops_ok (DoublyLinkedList h) ops" and "s = run_ops (DoublyLinkedList h) ops"
    and "dll_size s = 0"
  shows "dll_pop s = (s, Inl (IndexError ''pop from empty list'')) \<and>
         dll_popleft s = (s, Inl (IndexError ''popleft from empty list'')) \<and>
         (\<exists>e. snd (dll_pop s) = Inl e \<and> EmptyContainer e) \<and>
         (\<exists>e. snd (dll_popleft s) = Inl e \<and> EmptyContainer e) \<and>
         snd (dll_pop (fst (dll_append (fst (dll_pop s)) v))) = Inr v \<and>
         snd (dll_pop (fst (dll_append (fst (dll_popleft s)) v))) = Inr v"
proof -
  from assms obtain as where "dll_inv s as"
    using reachable_inv[of h ops] by auto
  with assms(3) have inv: "dll_inv s []" using dll_inv_size[of s as] by simp
  have pop: "dll_pop s = (s, Inl (IndexError ''pop from empty list''))"
    by (rule dll_inv_pop_empty[OF inv])
  have popleft: "dll_popleft s = (s, Inl (IndexError ''popleft from empty list''))"
    by (rule dll_inv_popleft_empty[OF inv])
  have inv': "dll_inv (fst (dll_append s v)) ([] @ [length (heap s)])"
    using dll_inv_append[OF inv, of v] by simp
  have "snd (dll_pop (fst (dll_append s v))) = Inr v"
    using dll_pop_snoc[OF inv'] new_node_append[of s v] by simp
  with pop popleft show ?thesis by simp
qed

theorem dll_pop_empty_witness:
  "ops_ok (DoublyLinkedList []) refill_ops \<and>
   dll_size (run_ops (DoublyLinkedList []) refill_ops) = 0 \<and>
   dll_pop (run_ops (DoublyLinkedList []) refill_ops) =
     (run_ops (DoublyLinkedList []) refill_ops, Inl (IndexError ''pop from empty list'')) \<and>
   dll_popleft (run_ops (DoublyLinkedList []) refill_ops) =
     (run_ops (DoublyLinkedList []) refill_ops, Inl (IndexError ''popleft from empty list'')) \<and>
   snd (dll_pop (fst (dll_append (fst (dll_pop (run_ops (DoublyLinkedList []) refill_ops))) 4)))
     = Inr 4"
proof -
  have ok: "ops_ok (DoublyLinkedList []) refill_ops" by (simp add: refill_ops_def)
  have sz: "dll_size (run_ops (DoublyLinkedList []) refill_ops) = 0"
    by (simp add: refill_ops_def dll_eval)
  from dll_pop_empty[OF ok refl sz, of 4] ok sz show ?thesis by blast
qed


text \<open>
  Claim C8. On a list reached by the operations and a node \<open>n\<close> that belongs to it,
  \<open>insert_after(n, v)\<close> followed by \<open>remove_node\<close> of the node just inserted gives back the
  forward traversal: the same values, the same nodes, and also the same backward traversal
  and the same length.
\<close>

theorem insert_after_remove_node:
  assumes "ops_ok (DoublyLinkedList h) ops" and "s = run_ops (DoublyLinkedList h) ops"
    and "belongs s n"
  shows "\<exists>vs. dll_iter s = Some vs \<and>
           dll_iter (remove_node (fst (insert_after s n v)) (snd (insert_after s n v))) = Some vs \<and>
           dll_reversed (remove_node (fst (insert_after s n v)) (snd (insert_after s n v))) =
             dll_reversed s \<and>
           iter_nodes (remove_node (fst (insert_after s n v)) (snd (insert_after s n v))) =
             iter_nodes s \<and>
           dll_len (remove_node (fst (insert_after s n v)) (snd (insert_after s n v))) = dll_len s \<and>
           dll_len s = int (length vs)"
proof -
  from assms obtain as where inv: "dll_inv s as"
    using reachable_inv[of h ops] by auto
  with assms(3) have "n \<in> set as" by (simp add: dll_inv_belongs)
  then obtain xs ys where as: "as = xs @ n # ys" by (auto simp: in_set_conv_decomp)
  let ?s1 = "fst (insert_after s n v)"
  let ?s2 = "remove_node ?s1 (length (heap s))"
  have "dll_inv ?s1 ((xs @ [n]) @ length (heap s) # ys)"
    using dll_inv_insert_after[of s xs n ys v] inv as by simp
  then have "dll_inv ?s2 ((xs @ [n]) @ ys)" by (rule dll_inv_remove_node)
  then have inv2: "dll_inv ?s2 as" using as by simp
  have vals: "values_of (heap ?s2) as = values_of (heap s) as"
    using values_insert_after[OF dll_inv_bound[OF inv]] by simp
  show ?thesis
    using dll_inv_iter[OF inv] dll_inv_iter[OF inv2] dll_inv_reversed[OF inv]
      dll_inv_reversed[OF inv2] dll_inv_iter_nodes[OF inv] dll_inv_iter_nodes[OF inv2]
      dll_inv_size[OF inv] dll_inv_size[OF inv2] vals
    by (simp add: dll_len_def)
qed

lemma splice_ops_run:
  "run_ops (DoublyLinkedList []) splice_ops =
     \<lparr>heap = [\<lparr>node_value = 1, node_prev = Some 2, node_next = Some 1\<rparr>,
              \<lparr>node_value = 2, node_prev = Some 0, node_next = None\<rparr>,
              \<lparr>node_value = 0, node_prev = None, node_next = Some 0\<rparr>],
       dll_head = Some 2, dll_tail = Some 1, dll_size = 3\<rparr>"
  by (simp add: splice_ops_def dll_eval)

theorem insert_after_remove_node_witness:
  "ops_ok (DoublyLinkedList []) splice_ops \<and>
   belongs (run_ops (DoublyLinkedList []) splice_ops) 0 \<and>
   dll_iter (run_ops (DoublyLinkedList []) splice_ops) = Some [0, 1, 2] \<and>
   dll_iter (fst (insert_after (run_ops (DoublyLinkedList []) splice_ops) 0 8)) = Some [0, 1, 8, 2] \<and>
   dll_iter (remove_node
      (fst (insert_after (run_ops (DoublyLinkedList []) splice_ops) 0 8))
      (snd (insert_after (run_ops (DoublyLinkedList []) splice_ops) 0 8))) = Some [0, 1, 2]"
proof -
  let ?s = "run_ops (DoublyLinkedList []) splice_ops"
  have ok: "ops_ok (DoublyLinkedList []) splice_ops" by (simp add: splice_ops_def)
  have b: "belongs ?s 0" unfolding splice_ops_run by (simp add: dll_eval)
  have it: "dll_iter ?s = Some [0, 1, 2]"
    unfolding splice_ops_run by (simp add: dll_eval values_of_def)
  have it1: "dll_iter (fst (insert_after ?s 0 8)) = Some [0, 1, 8, 2]"
    unfolding splice_ops_run by (simp add: dll_eval values_of_def)
  from insert_after_remove_node[OF ok refl b, of 8] obtain vs where
    "dll_iter ?s = Some vs" and
    "dll_iter (remove_node (fst (insert_after ?s 0 8)) (snd (insert_after ?s 0 8))) = Some vs"
    by blast
  with it have "dll_iter (remove_node (fst (insert_after ?s 0 8)) (snd (insert_after ?s 0 8)))
      = Some [0, 1, 2]" by simp
  with ok b it it1 show ?thesis by blast
qed


section \<open>Properties of the registry\<close>

subsection \<open>What each operation does to the two dictionaries\<close>

lemmas registry_eval = Registry_def classMap_def dict_setitem_def dict_delitem_def register_def
  init_subclass_def declare_class_def get_instance_def registry_all_def create_def
  construct_def Let_def

lemma classMap_dict_setitem [simp]:
  "classMap (dict_setitem r (priv_register r) k c) = (classMap r)(k \<mapsto> c)"
  by (simp add: classMap_def dict_setitem_def)

lemma instances_dict_setitem [simp]:
  "priv_instances (dict_setitem r d k c) = priv_instances r"
  by (simp add: dict_setitem_def)

lemma register_fail: "snd (register r c) = Inl e \<Longrightarrow> fst (register r c) = r"
  by (simp add: register_def Let_def split: option.splits)

lemma register_duplicate:
  "classMap r (cls_name c) = Some c' \<Longrightarrow>
   register r c = (r, Inl (ValueError_duplicate (dunder_name c) (dunder_name c')))"
  by (simp add: register_def Let_def)

lemma register_new:
  "classMap r (cls_name c) = None \<Longrightarrow>
   register r c = (dict_setitem r (priv_register r) (cls_name c) c, Inr ())"
  by (simp add: register_def Let_def)

lemma valid_name_cases: "is_str n \<and> truthy n \<longleftrightarrow> (\<exists>s. n = PyStr s \<and> s \<noteq> [])"
  by (cases n) auto

lemma declare_valid:
  "is_str (cls_name c) \<Longrightarrow> truthy (cls_name c) \<Longrightarrow> declare_class r c = register r c"
  by (cases "cls_name c") (auto simp: declare_class_def init_subclass_def)

lemma declare_invalid:
  "cls_name c = PyNone \<or> \<not> is_str (cls_name c) \<or> \<not> truthy (cls_name c) \<Longrightarrow>
   \<exists>e. declare_class r c = (r, Inl e) \<and> InvalidPatternName e"
  by (auto simp: declare_class_def init_subclass_def)

lemma declare_fail: "snd (declare_class r c) = Inl e \<Longrightarrow> fst (declare_class r c) = r"
  by (auto simp: declare_class_def init_subclass_def register_fail split: if_splits)


lemma create_cached: "priv_instances r name = Some i \<Longrightarrow> create r name kw = (r, Inr i)"
  by (simp add: create_def get_instance_def)

lemma create_unregistered:
  "priv_instances r name = None \<Longrightarrow> classMap r name = None \<Longrightarrow>
   create r name kw = (r, Inl (KeyError name))"
  by (simp add: create_def)

lemma create_raises:
  "priv_instances r name = None \<Longrightarrow> classMap r name = Some c \<Longrightarrow>
   construct c kw (next_id r) = Inl e \<Longrightarrow> create r name kw = (r, Inl e)"
  by (simp add: create_def)

lemma create_first:
  "priv_instances r name = None \<Longrightarrow> classMap r name = Some c \<Longrightarrow>
   construct c kw (next_id r) = Inr i \<Longrightarrow>
   create r name kw =
     (r\<lparr>priv_instances := (priv_instances r)(name \<mapsto> i), next_id := next_id r + 1\<rparr>, Inr i)"
  by (simp add: create_def get_instance_def)

lemma classMap_create [simp]: "classMap (fst (create r name kw)) = classMap r"
  by (auto simp: create_def get_instance_def classMap_def split: option.splits sum.splits)

lemma instances_create:
  "priv_instances (fst (create r name kw)) = priv_instances r \<or>
   (\<exists>i. classMap r name \<noteq> None \<and> priv_instances (fst (create r name kw)) = (priv_instances r)(name \<mapsto> i))"
  by (auto simp: create_def get_instance_def split: option.splits sum.splits)

lemma instances_declare [simp]: "priv_instances (fst (declare_class r c)) = priv_instances r"
  by (auto simp: declare_class_def init_subclass_def register_def Let_def split: option.splits)

lemma classMap_declare: "dom (classMap r) \<subseteq> dom (classMap (fst (declare_class r c)))"
  by (auto simp: declare_class_def init_subclass_def register_def Let_def split: option.splits)

lemma instances_registered_create:
  "instances_registered r \<Longrightarrow> instances_registered (fst (create r name kw))"
  using instances_create[of r name kw]
  by (fastforce simp: instances_registered_def dom_def split: if_splits)

lemma instances_registered_declare:
  "instances_registered r \<Longrightarrow> instances_registered (fst (declare_class r c))"
  using classMap_declare[of r c] by (auto simp: instances_registered_def)

lemma instances_registered_step:
  "instances_registered r \<Longrightarrow> instances_registered (apply_registry_op r x)"
  by (cases x) (simp_all add: instances_registered_create instances_registered_declare get_instance_def split: option.splits)

lemma instances_registered_run:
  "instances_registered r \<Longrightarrow> instances_registered (run_registry r ops)"
  by (induction ops arbitrary: r) (simp_all add: instances_registered_step)

lemma instances_registered_init: "instances_registered Registry"
  by (simp add: instances_registered_def Registry_def)

lemma cached_step:
  "priv_instances r name = Some i \<Longrightarrow> priv_instances (apply_registry_op r x) name = Some i"
proof (cases x)
  case (Create n k)
  assume a: "priv_instances r name = Some i"
  show ?thesis
  proof (cases "n = name")
    case True
    with a Create show ?thesis by (simp add: create_cached)
  next
    case False
    with a Create instances_create[of r n k] show ?thesis by auto
  qed
qed (simp_all add: get_instance_def split: option.splits)

lemma cached_run:
  "priv_instances r name = Some i \<Longrightarrow> priv_instances (run_registry r ops) name = Some i"
  by (induction ops arbitrary: r) (simp_all add: cached_step)

subsection \<open>Registered names are valid names\<close>

lemma keys_valid_declare:
  assumes "\<forall>k c. classMap r k = Some c \<longrightarrow> is_str k \<and> truthy k"
    and "classMap (fst (declare_class r d)) k = Some c"
  shows "is_str k \<and> truthy k"
proof (cases "is_str (cls_name d) \<and> truthy (cls_name d) \<and> classMap r (cls_name d) = None")
  case True
  then have "declare_class r d = (dict_setitem r (priv_register r) (cls_name d) d, Inr ())"
    by (simp add: declare_valid register_new)
  with assms True show ?thesis by (cases "k = cls_name d") auto
next
  case False
  have "fst (declare_class r d) = r"
  proof (cases "is_str (cls_name d) \<and> truthy (cls_name d)")
    case True
    with False obtain c' where "classMap r (cls_name d) = Some c'" by auto
    with True show ?thesis by (simp add: declare_valid register_duplicate)
  next
    case False
    then have "cls_name d = PyNone \<or> \<not> is_str (cls_name d) \<or> \<not> truthy (cls_name d)" by auto
    from declare_invalid[OF this, of r] show ?thesis by auto
  qed
  with assms show ?thesis by simp
qed

lemma keys_valid_step:
  assumes "\<forall>k c. classMap r k = Some c \<longrightarrow> is_str k \<and> truthy k"
  shows "\<forall>k c. classMap (apply_registry_op r x) k = Some c \<longrightarrow> is_str k \<and> truthy k"
proof (cases x)
  case (Declare d)
  with keys_valid_declare[OF assms] show ?thesis by auto
next
  case (Create n kw)
  with assms show ?thesis by simp
next
  case (GetInstance n)
  with assms show ?thesis by (simp add: get_instance_def split: option.splits)
qed

lemma keys_valid_run:
  "\<forall>k c. classMap r k = Some c \<longrightarrow> is_str k \<and> truthy k \<Longrightarrow>
   \<forall>k c. classMap (run_registry r ops) k = Some c \<longrightarrow> is_str k \<and> truthy k"
proof (induction ops arbitrary: r)
  case Nil
  then show ?case by simp
next
  case (Cons x xs)
  from Cons.IH[OF keys_valid_step[OF Cons.prems, of x]] show ?case by simp
qed

lemma keys_valid_reachable:
  "classMap (run_registry Registry ops) k = Some c \<Longrightarrow> is_str k \<and> truthy k"
proof -
  have "\<forall>k c. classMap (Registry :: ('a, 'b) registry) k = Some c \<longrightarrow> is_str k \<and> truthy k"
    by (simp add: classMap_def Registry_def)
  from keys_valid_run[OF this, of ops] show "classMap (run_registry Registry ops) k = Some c \<Longrightarrow> is_str k \<and> truthy k"
    by blast
qed

lemma declare_duplicate_reachable:
  assumes "classMap (run_registry Registry ops) (cls_name c) \<noteq> None"
  shows "\<exists>e. declare_class (run_registry Registry ops) c = (run_registry Registry ops, Inl e) \<and>
             DuplicatePattern e"
proof -
  from assms obtain c' where c': "classMap (run_registry Registry ops) (cls_name c) = Some c'"
    by auto
  from keys_valid_reachable[OF c'] register_duplicate[OF c'] show ?thesis
    by (simp add: declare_valid)
qed

subsection \<open>The claims about the registry\<close>

lemma Bare_declared:
  "declare_class Registry Bare = (dict_setitem Registry 0 (PyStr ''bare'') Bare, Inr ())"
  by (simp add: declare_class_def init_subclass_def register_def Let_def Registry_def Bare_def
      classMap_def)

text \<open>
  Claim C2 says that defining a variant with a valid name and no \<open>on_pivot\<close> fails at
  declaration time and leaves its name out of \<open>classMap\<close>. It does not: the class
  \<open>Bare\<close>, named \<open>bare\<close> and without \<open>on_pivot\<close>, is declared without an exception and is
  registered.
\<close>

theorem abstract_variant_counterexample:
  "is_str (cls_name Bare) \<and> truthy (cls_name Bare) \<and> \<not> implements_on_pivot Bare \<and>
   snd (declare_class Registry Bare) = Inr () \<and>
   classMap (fst (declare_class Registry Bare)) (cls_name Bare) = Some Bare"
  unfolding Bare_declared by (simp add: Bare_def classMap_def dict_setitem_def Registry_def)

text \<open>
  Claim C2, amended. Defining a variant with a valid, non-empty name that is not yet
  registered and with no \<open>on_pivot\<close> succeeds, and the variant is registered under its
  name. The \<open>TypeError\<close> of the abstract class (the specification's
  \<open>AbstractContractViolation\<close>) comes when \<open>create\<close> instantiates it: that call raises,
  leaves the registry as it was and caches no instance.
\<close>

theorem abstract_variant_declared:
  assumes "is_str (cls_name c)" and "truthy (cls_name c)" and "\<not> implements_on_pivot c"
    and "classMap r (cls_name c) = None" and "priv_instances r (cls_name c) = None"
  shows "snd (declare_class r c) = Inr () \<and>
         classMap (fst (declare_class r c)) (cls_name c) = Some c \<and>
         create (fst (declare_class r c)) (cls_name c) kw =
           (fst (declare_class r c), Inl (TypeError_abstract (dunder_name c))) \<and>
         AbstractContractViolation (TypeError_abstract (dunder_name c)) \<and>
         priv_instances (fst (create (fst (declare_class r c)) (cls_name c) kw)) (cls_name c) = None"
proof -
  let ?r = "dict_setitem r (priv_register r) (cls_name c) c"
  have d: "declare_class r c = (?r, Inr ())"
    using assms(1,2,4) by (simp add: declare_valid register_new)
  have cm: "classMap ?r (cls_name c) = Some c" by simp
  have inst: "priv_instances ?r (cls_name c) = None" using assms(5) by simp
  have "construct c kw (next_id ?r) = Inl (TypeError_abstract (dunder_name c))"
    using assms(3) by (simp add: construct_def)
  from create_raises[OF inst cm this] d cm inst show ?thesis by simp
qed

theorem abstract_variant_declared_witness:
  "is_str (cls_name Bare) \<and> truthy (cls_name Bare) \<and> \<not> implements_on_pivot Bare \<and>
   classMap (Registry :: (int, int) registry) (cls_name Bare) = None \<and>
   priv_instances (Registry :: (int, int) registry) (cls_name Bare) = None \<and>
   snd (declare_class Registry Bare) = Inr () \<and>
   create (fst (declare_class Registry Bare)) (cls_name Bare) 5 =
     (fst (declare_class Registry Bare), Inl (TypeError_abstract ''Bare''))"
proof -
  have 1: "is_str (cls_name Bare)" by (simp add: Bare_def)
  have 2: "truthy (cls_name Bare)" by (simp add: Bare_def)
  have 3: "\<not> implements_on_pivot Bare" by (simp add: Bare_def)
  have 4: "classMap (Registry :: (int, int) registry) (cls_name Bare) = None" by (simp add: classMap_def Registry_def)
  have 5: "priv_instances (Registry :: (int, int) registry) (cls_name Bare) = None"
    by (simp add: Registry_def)
  have 6: "dunder_name Bare = ''Bare''" by (simp add: Bare_def)
  from abstract_variant_declared[OF 1 2 3 4 5, of 5] 1 2 3 4 5 show ?thesis
    unfolding 6 by blast
qed

text \<open>
  Claim C3 says that changing the mapping returned by \<open>all()\<close> leaves \<open>classMap\<close> as it
  was. It does not: storing \<open>Bare\<close> under \<open>bare\<close> in the mapping that \<open>all()\<close> returned for
  the empty registry makes \<open>bare\<close> a key of \<open>classMap\<close>.
\<close>

theorem all_view_counterexample:
  "classMap (Registry :: (int, int) registry) (PyStr ''bare'') = None \<and>
   classMap (dict_setitem Registry (snd (registry_all Registry)) (PyStr ''bare'') Bare)
     (PyStr ''bare'') = Some Bare"
  by (simp add: registry_all_def classMap_def dict_setitem_def Registry_def)

text \<open>
  Claim C3, amended. \<open>all()\<close> changes nothing and returns the dictionary of the registry
  itself, not a copy: storing an entry through the returned mapping stores it in
  \<open>classMap\<close>, deleting one deletes it from \<open>classMap\<close>, a later \<open>all()\<close> returns the same
  mapping again, and \<open>_instances\<close> is not touched.
\<close>

theorem all_returns_the_registry_dict:
  "fst (registry_all r) = r \<and>
   classMap (dict_setitem r (snd (registry_all r)) k c) = (classMap r)(k \<mapsto> c) \<and>
   classMap (fst (dict_delitem r (snd (registry_all r)) k)) = (classMap r)(k := None) \<and>
   snd (registry_all (dict_setitem r (snd (registry_all r)) k c)) = snd (registry_all r) \<and>
   snd (registry_all (fst (dict_delitem r (snd (registry_all r)) k))) = snd (registry_all r) \<and>
   priv_instances (dict_setitem r (snd (registry_all r)) k c) = priv_instances r \<and>
   priv_instances (fst (dict_delitem r (snd (registry_all r)) k)) = priv_instances r"
  by (auto simp: registry_all_def classMap_def dict_setitem_def dict_delitem_def
      split: option.splits)

text \<open>
  Claim C4. Declaring a class whose \<open>name\<close> is \<open>None\<close>, not a string or empty raises the
  \<open>ValueError\<close> of \<open>__init_subclass__\<close> (\<open>InvalidPatternName\<close>); declaring one whose valid
  name is already a key of \<open>classMap\<close> raises the \<open>ValueError\<close> of \<open>register\<close>
  (\<open>DuplicatePattern\<close>), as does \<open>register\<close> itself for any name that is a key; in a
  registry reached by declarations, creations and lookups every key is a valid name, so
  there a declaration under any name that is already a key raises that error; and after
  every declaration that raised, the registry is the one before it: \<open>classMap\<close> has the
  same entries and \<open>all()\<close> returns the same mapping.
\<close>

theorem failed_declaration_atomic:
  "(cls_name c = PyNone \<or> \<not> is_str (cls_name c) \<or> \<not> truthy (cls_name c) \<longrightarrow>
      (\<exists>e. declare_class r c = (r, Inl e) \<and> InvalidPatternName e)) \<and>
   (is_str (cls_name c) \<and> truthy (cls_name c) \<and> classMap r (cls_name c) \<noteq> None \<longrightarrow>
      (\<exists>e. declare_class r c = (r, Inl e) \<and> DuplicatePattern e)) \<and>
   (classMap (run_registry Registry ops) (cls_name c) \<noteq> None \<longrightarrow>
      (\<exists>e. declare_class (run_registry Registry ops) c = (run_registry Registry ops, Inl e) \<and>
           DuplicatePattern e)) \<and>
   (classMap r (cls_name c) \<noteq> None \<longrightarrow>
      (\<exists>e. register r c = (r, Inl e) \<and> DuplicatePattern e)) \<and>
   (\<forall>e. snd (declare_class r c) = Inl e \<longrightarrow>
      fst (declare_class r c) = r \<and> classMap (fst (declare_class r c)) = classMap r \<and>
      snd (registry_all (fst (declare_class r c))) = snd (registry_all r))"
proof (intro conjI impI allI)
  assume "cls_name c = PyNone \<or> \<not> is_str (cls_name c) \<or> \<not> truthy (cls_name c)"
  then show "\<exists>e. declare_class r c = (r, Inl e) \<and> InvalidPatternName e"
    by (rule declare_invalid)
next
  assume a: "is_str (cls_name c) \<and> truthy (cls_name c) \<and> classMap r (cls_name c) \<noteq> None"
  then obtain c' where "classMap r (cls_name c) = Some c'" by auto
  from register_duplicate[OF this] a
  show "\<exists>e. declare_class r c = (r, Inl e) \<and> DuplicatePattern e"
    by (simp add: declare_valid)
next
  assume "classMap (run_registry Registry ops) (cls_name c) \<noteq> None"
  then show "\<exists>e. declare_class (run_registry Registry ops) c =
      (run_registry Registry ops, Inl e) \<and> DuplicatePattern e"
    by (rule declare_duplicate_reachable)
next
  assume "classMap r (cls_name c) \<noteq> None"
  then obtain c' where "classMap r (cls_name c) = Some c'" by auto
  from register_duplicate[OF this]
  show "\<exists>e. register r c = (r, Inl e) \<and> DuplicatePattern e" by simp
next
  fix e assume e: "snd (declare_class r c) = Inl e"
  show "fst (declare_class r c) = r" by (rule declare_fail[OF e])
  then show "classMap (fst (declare_class r c)) = classMap r" by simp
  show "snd (registry_all (fst (declare_class r c))) = snd (registry_all r)"
    using declare_fail[OF e] by simp
qed

lemma Foo_declared:
  "declare_class Registry Foo = (dict_setitem Registry 0 (PyStr ''foo'') Foo, Inr ())"
  by (simp add: declare_class_def init_subclass_def register_def Let_def Registry_def Foo_def
      classMap_def)

theorem failed_declaration_atomic_witness:
  "cls_name Unnamed = PyNone \<and>
   declare_class Registry Unnamed = (Registry, Inl (ValueError_name_unset ''Unnamed'')) \<and>
   \<not> truthy (cls_name EmptyName) \<and>
   declare_class Registry EmptyName = (Registry, Inl (ValueError_name_invalid ''EmptyName'')) \<and>
   \<not> is_str (cls_name NumberName) \<and>
   declare_class Registry NumberName = (Registry, Inl (ValueError_name_invalid ''NumberName'')) \<and>
   is_str (cls_name Foo2) \<and> truthy (cls_name Foo2) \<and>
   classMap (fst (declare_class Registry Foo)) (cls_name Foo2) \<noteq> None \<and>
   declare_class (fst (declare_class Registry Foo)) Foo2 =
     (fst (declare_class Registry Foo), Inl (ValueError_duplicate ''Foo2'' ''Foo'')) \<and>
   classMap (fst (declare_class (fst (declare_class Registry Foo)) Foo2)) (PyStr ''foo'') = Some Foo"
proof -
  let ?r = "fst (declare_class Registry Foo)"
  have u: "cls_name Unnamed = PyNone" by (simp add: Unnamed_def)
  have e: "\<not> truthy (cls_name EmptyName)" by (simp add: EmptyName_def)
  have n: "\<not> is_str (cls_name NumberName)" by (simp add: NumberName_def)
  have f: "is_str (cls_name Foo2) \<and> truthy (cls_name Foo2) \<and> classMap ?r (cls_name Foo2) \<noteq> None"
    unfolding Foo_declared by (simp add: Foo2_def classMap_def dict_setitem_def Registry_def)
  have du: "declare_class Registry Unnamed = (Registry, Inl (ValueError_name_unset ''Unnamed''))"
    using failed_declaration_atomic[of Unnamed Registry load_ops] u
    by (simp add: declare_class_def init_subclass_def Unnamed_def)
  have de: "declare_class Registry EmptyName = (Registry, Inl (ValueError_name_invalid ''EmptyName''))"
    using failed_declaration_atomic[of EmptyName Registry load_ops] e
    by (simp add: declare_class_def init_subclass_def EmptyName_def)
  have dn: "declare_class Registry NumberName = (Registry, Inl (ValueError_name_invalid ''NumberName''))"
    using failed_declaration_atomic[of NumberName Registry load_ops] n
    by (simp add: declare_class_def init_subclass_def NumberName_def)
  from failed_declaration_atomic[of Foo2 ?r load_ops] f
  obtain x where x: "declare_class ?r Foo2 = (?r, Inl x)" by blast
  have "declare_class ?r Foo2 = (?r, Inl (ValueError_duplicate ''Foo2'' ''Foo''))"
    unfolding Foo_declared
    by (simp add: declare_class_def init_subclass_def register_def Let_def Foo2_def Foo_def
        classMap_def dict_setitem_def Registry_def)
  moreover have "classMap (fst (declare_class ?r Foo2)) (PyStr ''foo'') = Some Foo"
    unfolding x unfolding Foo_declared by (simp add: classMap_def dict_setitem_def Registry_def)
  ultimately show ?thesis using u e n f du de dn by blast
qed

lemma load_ops_run:
  "run_registry Registry load_ops =
     \<lparr>dicts = (\<lambda>_. Map.empty)(0 := [PyStr ''foo'' \<mapsto> Foo, PyStr ''picky'' \<mapsto> Picky,
                                      PyStr ''bare'' \<mapsto> Bare]),
      priv_register = 0, priv_instances = Map.empty, next_id = 0\<rparr>"
  by (simp add: load_ops_def registry_eval Foo_def Foo2_def Picky_def Bare_def)

text \<open>
  Claim C5. For a registered name without an instance yet, whose class can be
  instantiated with \<open>kw\<close>: \<open>create(name, kw)\<close> returns a new object of the class
  \<open>classMap[name]\<close>, built by its constructor from \<open>kw\<close>, and caches it; every later
  \<open>create(name, kw')\<close>, after any further declarations, creations and lookups, returns
  that object, the same identity and the same state, whatever \<open>kw'\<close> is.
\<close>

theorem create_singleton:
  assumes "priv_instances r name = None" and "classMap r name = Some c"
    and "implements_on_pivot c" and "cls_init c kw = Inr st"
  shows "snd (create r name kw) =
           Inr \<lparr>inst_id = next_id r, inst_class = dunder_name c, inst_state = st\<rparr> \<and>
         priv_instances (fst (create r name kw)) name =
           Some \<lparr>inst_id = next_id r, inst_class = dunder_name c, inst_state = st\<rparr> \<and>
         (\<forall>ops kw'. create (run_registry (fst (create r name kw)) ops) name kw' =
            (run_registry (fst (create r name kw)) ops,
             Inr \<lparr>inst_id = next_id r, inst_class = dunder_name c, inst_state = st\<rparr>))"
proof -
  let ?i = "\<lparr>inst_id = next_id r, inst_class = dunder_name c, inst_state = st\<rparr>"
  have "construct c kw (next_id r) = Inr ?i" using assms(3,4) by (simp add: construct_def)
  from create_first[OF assms(1,2) this]
  have c: "create r name kw =
     (r\<lparr>priv_instances := (priv_instances r)(name \<mapsto> ?i), next_id := next_id r + 1\<rparr>, Inr ?i)" .
  then have cached: "priv_instances (fst (create r name kw)) name = Some ?i" by simp
  have "create (run_registry (fst (create r name kw)) ops) name kw' =
          (run_registry (fst (create r name kw)) ops, Inr ?i)" for ops kw'
    by (rule create_cached[OF cached_run[OF cached]])
  with c cached show ?thesis by simp
qed

theorem create_singleton_witness:
  "priv_instances (run_registry Registry load_ops) (PyStr ''foo'') = None \<and>
   classMap (run_registry Registry load_ops) (PyStr ''foo'') = Some Foo \<and>
   implements_on_pivot Foo \<and> cls_init Foo 1 = Inr 1 \<and>
   snd (create (run_registry Registry load_ops) (PyStr ''foo'') 1) =
     Inr \<lparr>inst_id = 0, inst_class = ''Foo'', inst_state = 1\<rparr> \<and>
   snd (create (fst (create (run_registry Registry load_ops) (PyStr ''foo'') 1)) (PyStr ''foo'') 2) =
     Inr \<lparr>inst_id = 0, inst_class = ''Foo'', inst_state = 1\<rparr> \<and>
   snd (create (run_registry (fst (create (run_registry Registry load_ops) (PyStr ''foo'') 1)) later_ops)
          (PyStr ''foo'') 2) =
     Inr \<lparr>inst_id = 0, inst_class = ''Foo'', inst_state = 1\<rparr>"
proof -
  let ?r = "run_registry Registry load_ops"
  have 1: "priv_instances ?r (PyStr ''foo'') = None" unfolding load_ops_run by simp
  have 2: "classMap ?r (PyStr ''foo'') = Some Foo" unfolding load_ops_run by (simp add: classMap_def)
  have 3: "implements_on_pivot Foo" by (simp add: Foo_def)
  have 4: "cls_init Foo 1 = Inr 1" by (simp add: Foo_def)
  have 5: "next_id ?r = 0" unfolding load_ops_run by simp
  have 6: "dunder_name Foo = ''Foo''" by (simp add: Foo_def)
  note t = create_singleton[OF 1 2 3 4, unfolded 5 6]
  from t have a: "snd (create ?r (PyStr ''foo'') 1) =
     Inr \<lparr>inst_id = 0, inst_class = ''Foo'', inst_state = 1\<rparr>" by blast
  from t have "create (run_registry (fst (create ?r (PyStr ''foo'') 1)) []) (PyStr ''foo'') 2 =
     (run_registry (fst (create ?r (PyStr ''foo'') 1)) [],
      Inr \<lparr>inst_id = 0, inst_class = ''Foo'', inst_state = 1\<rparr>)" by blast
  then have b: "snd (create (fst (create ?r (PyStr ''foo'') 1)) (PyStr ''foo'') 2) =
     Inr \<lparr>inst_id = 0, inst_class = ''Foo'', inst_state = 1\<rparr>" by simp
  from t have "create (run_registry (fst (create ?r (PyStr ''foo'') 1)) later_ops) (PyStr ''foo'') 2 =
     (run_registry (fst (create ?r (PyStr ''foo'') 1)) later_ops,
      Inr \<lparr>inst_id = 0, inst_class = ''Foo'', inst_state = 1\<rparr>)" by blast
  then have c: "snd (create (run_registry (fst (create ?r (PyStr ''foo'') 1)) later_ops)
      (PyStr ''foo'') 2) = Inr \<lparr>inst_id = 0, inst_class = ''Foo'', inst_state = 1\<rparr>" by simp
  from 1 2 3 4 a b c show ?thesis by blast
qed

lemma create_unregistered_inv:
  assumes "instances_registered r" and "classMap r name = None"
  shows "create r name kw = (r, Inl (KeyError name))"
proof -
  from assms have "priv_instances r name = None"
    by (auto simp: instances_registered_def dom_def)
  from create_unregistered[OF this assms(2)] show ?thesis .
qed

lemma forgotten_foo_cached:
  "priv_instances forgotten_foo (PyStr ''foo'') =
     Some \<lparr>inst_id = 0, inst_class = ''Foo'', inst_state = 1\<rparr>"
  unfolding forgotten_foo_def load_ops_run
  by (simp add: create_def get_instance_def construct_def classMap_def dict_delitem_def
      registry_all_def Foo_def Let_def)

text \<open>
  Claim C9 says that \<open>create(name, kw)\<close> raises \<open>KeyError\<close> whenever \<open>name\<close> is not a key of
  \<open>classMap\<close>. It does not when an instance is cached: after \<open>create("foo", 1)\<close> and the
  deletion of \<open>foo\<close> from the mapping that \<open>all()\<close> returns, \<open>foo\<close> is not a key of
  \<open>classMap\<close> and \<open>create("foo", 2)\<close> returns the cached instance.
\<close>

theorem create_cached_counterexample:
  "classMap forgotten_foo (PyStr ''foo'') = None \<and>
   create forgotten_foo (PyStr ''foo'') 2 =
     (forgotten_foo, Inr \<lparr>inst_id = 0, inst_class = ''Foo'', inst_state = 1\<rparr>)"
proof
  show "classMap forgotten_foo (PyStr ''foo'') = None"
    unfolding forgotten_foo_def load_ops_run
    by (simp add: create_def get_instance_def construct_def classMap_def dict_delitem_def
        registry_all_def Foo_def Let_def)
  show "create forgotten_foo (PyStr ''foo'') 2 =
     (forgotten_foo, Inr \<lparr>inst_id = 0, inst_class = ''Foo'', inst_state = 1\<rparr>)"
    by (rule create_cached[OF forgotten_foo_cached])
qed

text \<open>
  Claim C9, amended. \<open>create(name, kw)\<close> looks in \<open>_instances\<close> first: it raises \<open>KeyError\<close>
  (\<open>NotFound\<close>) whenever \<open>name\<close> is a key neither of \<open>_instances\<close> nor of \<open>classMap\<close>, and
  returns the cached instance whenever there is one, registered or not. So it raises
  \<open>KeyError\<close> whenever \<open>name\<close> is not a key of \<open>classMap\<close> in every registry in which each
  cached instance is of a registered name, which every registry reached by declarations,
  creations and lookups is. \<open>get_instance(name)\<close> raises \<open>KeyError\<close> whenever no instance
  is cached for \<open>name\<close>. A call that raises gives no instance and leaves the registry
  unchanged.
\<close>

theorem lookup_not_found:
  fixes r :: "('cfg, 'obj) registry"
  shows "(priv_instances r name = None \<and> classMap r name = None \<longrightarrow>
      create r name kw = (r, Inl (KeyError name))) \<and>
   (\<forall>i. priv_instances r name = Some i \<longrightarrow> create r name kw = (r, Inr i)) \<and>
   (classMap (run_registry (Registry :: ('cfg, 'obj) registry) ops) name = None \<longrightarrow>
      create (run_registry Registry ops) name kw = (run_registry Registry ops, Inl (KeyError name))) \<and>
   (instances_registered r \<and> classMap r name = None \<longrightarrow>
      create r name kw = (r, Inl (KeyError name))) \<and>
   (priv_instances r name = None \<longrightarrow> get_instance r name = (r, Inl (KeyError name))) \<and>
   NotFound (KeyError name)"
proof (intro conjI impI allI)
  assume "priv_instances r name = None \<and> classMap r name = None"
  then show "create r name kw = (r, Inl (KeyError name))"
    by (simp add: create_unregistered)
next
  fix i assume "priv_instances r name = Some i"
  then show "create r name kw = (r, Inr i)" by (rule create_cached)
next
  assume "classMap (run_registry (Registry :: ('cfg, 'obj) registry) ops) name = None"
  then show "create (run_registry (Registry :: ('cfg, 'obj) registry) ops) name kw =
      (run_registry Registry ops, Inl (KeyError name))"
    by (rule create_unregistered_inv[OF instances_registered_run[OF instances_registered_init]])
next
  assume "instances_registered r \<and> classMap r name = None"
  then show "create r name kw = (r, Inl (KeyError name))"
    by (simp add: create_unregistered_inv)
next
  assume "priv_instances r name = None"
  then show "get_instance r name = (r, Inl (KeyError name))" by (simp add: get_instance_def)
next
  show "NotFound (KeyError name)" by simp
qed

theorem lookup_not_found_witness:
  "priv_instances (run_registry Registry load_ops) (PyStr ''bar'') = None \<and>
   classMap (run_registry Registry load_ops) (PyStr ''bar'') = None \<and>
   create (run_registry Registry load_ops) (PyStr ''bar'') 1 =
     (run_registry Registry load_ops, Inl (KeyError (PyStr ''bar''))) \<and>
   priv_instances (run_registry Registry load_ops) (PyStr ''foo'') = None \<and>
   get_instance (run_registry Registry load_ops) (PyStr ''foo'') =
     (run_registry Registry load_ops, Inl (KeyError (PyStr ''foo''))) \<and>
   instances_registered (run_registry Registry load_ops) \<and>
   priv_instances forgotten_foo (PyStr ''foo'') =
     Some \<lparr>inst_id = 0, inst_class = ''Foo'', inst_state = 1\<rparr> \<and>
   create forgotten_foo (PyStr ''foo'') 2 =
     (forgotten_foo, Inr \<lparr>inst_id = 0, inst_class = ''Foo'', inst_state = 1\<rparr>)"
proof -
  let ?r = "run_registry Registry load_ops"
  have 0: "priv_instances ?r (PyStr ''bar'') = None" unfolding load_ops_run by simp
  have 1: "classMap ?r (PyStr ''bar'') = None" unfolding load_ops_run by (simp add: classMap_def)
  have 2: "priv_instances ?r (PyStr ''foo'') = None" unfolding load_ops_run by simp
  have 3: "instances_registered ?r"
    unfolding load_ops_run by (simp add: instances_registered_def)
  from lookup_not_found[where r = "?r" and name = "PyStr ''bar''" and kw = 1 and ops = load_ops] 0 1
  have a: "create ?r (PyStr ''bar'') 1 = (?r, Inl (KeyError (PyStr ''bar'')))" by blast
  from lookup_not_found[where r = "?r" and name = "PyStr ''foo''" and kw = 1 and ops = load_ops] 2
  have b: "get_instance ?r (PyStr ''foo'') = (?r, Inl (KeyError (PyStr ''foo'')))" by blast
  from lookup_not_found[where r = forgotten_foo and name = "PyStr ''foo''" and kw = 2
      and ops = load_ops] forgotten_foo_cached
  have c: "create forgotten_foo (PyStr ''foo'') 2 =
     (forgotten_foo, Inr \<lparr>inst_id = 0, inst_class = ''Foo'', inst_state = 1\<rparr>)" by blast
  from 0 1 2 3 a b c forgotten_foo_cached show ?thesis by blast
qed



end
